theory Spec2Isabelle
  imports
    Complex_Main
    "HOL-Library.Char_ord"
    "HOL-Library.List_Lexorder"
    "HOL-Library.Product_Lexorder"
    "HOL-Library.Multiset"
begin

section \<open>Python text primitives used by the build scripts\<close>

text \<open>
  A Python \<open>str\<close> is modelled as a \<open>string\<close> whose characters stand for the code
  points U+0000 to U+00FF of the same number; text with code points beyond that range is
  outside the model (the registries' delegation files are ASCII). Strings are compared as
  Python compares them: lexicographically by code point (\<open>List_Lexorder\<close> over
  \<open>Char_ord\<close>).
\<close>

datatype error = ValueError | KeyError | FileNotFoundError | OSError

definition LF :: char where
  "LF = CHR 0x0A"

definition CR :: char where
  "CR = CHR 0x0D"

definition code_point :: "char \<Rightarrow> nat" where
  "code_point c = of_char c"

text \<open>\<open>str.isspace\<close> on one character, as \<open>str.strip()\<close> uses it.\<close>

definition isspace :: "char \<Rightarrow> bool" where
  "isspace c =
     (let n = code_point c
      in (9 \<le> n \<and> n \<le> 13) \<or> (28 \<le> n \<and> n \<le> 32) \<or> n = 133 \<or> n = 160)"

text \<open>\<open>s.strip()\<close>: leading and trailing whitespace removed.\<close>

definition strip :: "string \<Rightarrow> string" where
  "strip s = rev (dropWhile isspace (rev (dropWhile isspace s)))"

text \<open>\<open>s.split(d)\<close> for a one-character separator: never empty, \<open>''.split('|') = ['']\<close>.\<close>

fun split_on :: "char \<Rightarrow> string \<Rightarrow> string list" where
  "split_on d [] = [[]]"
| "split_on d (c # cs) =
     (if c = d then [] # split_on d cs
      else (case split_on d cs of
              [] \<Rightarrow> [[c]]
            | w # ws \<Rightarrow> (c # w) # ws))"

text \<open>\<open>s.startswith(p)\<close> and the substring test \<open>sub in s\<close>.\<close>

fun startswith :: "string \<Rightarrow> string \<Rightarrow> bool" where
  "startswith s [] = True"
| "startswith [] (p # ps) = False"
| "startswith (c # cs) (p # ps) = (c = p \<and> startswith cs ps)"

fun contains :: "string \<Rightarrow> string \<Rightarrow> bool" where
  "contains [] sub = (sub = [])"
| "contains (c # cs) sub = (startswith (c # cs) sub \<or> contains cs sub)"

text \<open>
  \<open>s.isdigit()\<close>: non-empty and every character a digit. Between U+0000 and U+00FF the
  digit characters are \<open>0\<close> to \<open>9\<close> and the superscripts U+00B2, U+00B3 and U+00B9,
  which \<open>int()\<close> does not accept.
\<close>

definition is_decimal :: "char \<Rightarrow> bool" where
  "is_decimal c = (48 \<le> code_point c \<and> code_point c \<le> 57)"

definition is_digit_char :: "char \<Rightarrow> bool" where
  "is_digit_char c =
     (is_decimal c \<or> code_point c = 178 \<or> code_point c = 179 \<or> code_point c = 185)"

definition isdigit :: "string \<Rightarrow> bool" where
  "isdigit s = (s \<noteq> [] \<and> list_all is_digit_char s)"

definition digit_value :: "char \<Rightarrow> nat" where
  "digit_value c = code_point c - 48"

text \<open>
  \<open>int(s)\<close> in base 10: surrounding whitespace is skipped, one sign is allowed, then
  decimal digits, with single underscores allowed between digits. \<open>None\<close> is the
  \<open>ValueError\<close> of the source. A string of more digits than the interpreter's limit,
  4300 by default, raises it too; underscores do not count, leading zeros do.
\<close>

definition int_space :: "char \<Rightarrow> bool" where
  "int_space c =
     (let n = code_point c
      in (9 \<le> n \<and> n \<le> 13) \<or> n = 32 \<or> n = 133 \<or> n = 160)"

fun int_digits :: "nat \<Rightarrow> string \<Rightarrow> nat option" where
  "int_digits acc [] = Some acc"
| "int_digits acc [c] =
     (if is_decimal c then Some (10 * acc + digit_value c) else None)"
| "int_digits acc (c # d # ds) =
     (if is_decimal c then int_digits (10 * acc + digit_value c) (d # ds)
      else if c = CHR ''_'' \<and> is_decimal d then int_digits (10 * acc + digit_value d) ds
      else None)"

definition int_body :: "string \<Rightarrow> nat option" where
  "int_body s =
     (case s of
        [] \<Rightarrow> None
      | c # cs \<Rightarrow> if is_decimal c then int_digits (digit_value c) cs else None)"

definition max_str_digits :: nat where
  "max_str_digits = 4300"

definition int_literal :: "string \<Rightarrow> nat option" where
  "int_literal s =
     (case int_body s of
        None \<Rightarrow> None
      | Some n \<Rightarrow> if length (filter is_decimal s) > max_str_digits then None else Some n)"

definition py_int :: "string \<Rightarrow> int option" where
  "py_int s =
     (let t = rev (dropWhile int_space (rev (dropWhile int_space s)))
      in case t of
           [] \<Rightarrow> None
         | c # cs \<Rightarrow>
             if c = CHR ''-'' then map_option (\<lambda>n. - int n) (int_literal cs)
             else if c = CHR ''+'' then map_option int (int_literal cs)
             else map_option int (int_literal t))"

text \<open>
  \<open>str(n)\<close> of an integer: its decimal digits, with a minus sign when negative. The
  source applies it to prefix lengths, which are far below the limit on digits.
\<close>

definition digit_char :: "nat \<Rightarrow> char" where
  "digit_char n = ''0123456789'' ! n"

fun nat_digits :: "nat \<Rightarrow> string" where
  "nat_digits n =
     (if n < 10 then [digit_char n]
      else nat_digits (n div 10) @ [digit_char (n mod 10)])"

definition py_str :: "int \<Rightarrow> string" where
  "py_str i = (if i < 0 then CHR ''-'' # nat_digits (nat (- i)) else nat_digits (nat i))"

text \<open>\<open>s.upper()\<close>, on the ASCII letters (the source applies it to \<open>ipv4\<close> and \<open>ipv6\<close>).\<close>

definition upper_char :: "char \<Rightarrow> char" where
  "upper_char c =
     (case map_of (zip ''abcdefghijklmnopqrstuvwxyz'' ''ABCDEFGHIJKLMNOPQRSTUVWXYZ'') c of
        None \<Rightarrow> c
      | Some u \<Rightarrow> u)"

definition upper :: "string \<Rightarrow> string" where
  "upper s = map upper_char s"

text \<open>
  Reading a text file line by line: universal newlines turn \<open>\r\n\<close> and \<open>\r\<close> into
  \<open>\n\<close>, and each line keeps its terminating \<open>\n\<close>.
\<close>

fun universal_newlines :: "string \<Rightarrow> string" where
  "universal_newlines [] = []"
| "universal_newlines [c] = [if c = CR then LF else c]"
| "universal_newlines (c # d # ds) =
     (if c = CR \<and> d = LF then LF # universal_newlines ds
      else if c = CR then LF # universal_newlines (d # ds)
      else c # universal_newlines (d # ds))"

fun keep_lines :: "string \<Rightarrow> string list" where
  "keep_lines [] = []"
| "keep_lines (c # cs) =
     (if c = LF then [c] # keep_lines cs
      else (case keep_lines cs of
              [] \<Rightarrow> [[c]]
            | l # ls \<Rightarrow> (c # l) # ls))"

definition file_lines :: "string \<Rightarrow> string list" where
  "file_lines text = keep_lines (universal_newlines text)"

section \<open>IP blocks: \<open>build.py\<close>\<close>

record IPPackage =
  country :: string
  ip :: string
  prefix_length :: string
  version :: string

text \<open>
  \<open>int(32 - math.log2(n))\<close>. \<open>math.log2\<close> raises \<open>ValueError\<close> unless \<open>n\<close> is
  positive, and returns a double. \<open>floor_log2 n\<close> is the largest \<open>m\<close> with
  \<open>2 ^ m \<le> n\<close>. On a power of two the double is \<open>m\<close> exactly. Otherwise the
  logarithm lies strictly between \<open>m\<close> and \<open>m + 1\<close>, and \<open>int()\<close> truncates the
  difference towards zero. Below \<open>2 ^ 40\<close> the logarithm is farther than \<open>2 ^ -40\<close>
  from both integers, much more than the error of the double, and the result is that of the
  real logarithm. From \<open>2 ^ 40\<close> on the double can be the integer \<open>m + 1\<close> itself (it
  is for \<open>2 ^ 49 - 1\<close>), which makes the result one less; where this happens depends
  on the rounding of the platform's logarithm and is the parameter \<open>log2_rounds_up\<close>.
\<close>

fun floor_log2 :: "nat \<Rightarrow> nat" where
  "floor_log2 n = (if n < 2 then 0 else Suc (floor_log2 (n div 2)))"

definition int_32_minus_log2 :: "(int \<Rightarrow> bool) \<Rightarrow> int \<Rightarrow> error + int" where
  "int_32_minus_log2 log2_rounds_up n =
     (if n \<le> 0 then Inl ValueError
      else let m = floor_log2 (nat n)
           in if nat n = 2 ^ m then Inr (32 - int m)
              else if m < 32 then Inr (32 - int m - 1)
              else if m < 40 then Inr (32 - int m)
              else if log2_rounds_up n then Inr (32 - int m - 1)
              else Inr (32 - int m))"

text \<open>The parts of a line: \<open>line.strip().split('|')\<close>.\<close>

definition parts_of :: "string \<Rightarrow> string list" where
  "parts_of line = split_on CHR ''|'' (strip line)"

text \<open>
  One iteration of the loop of \<open>process_region_data\<close>: \<open>Inr None\<close> when the line
  appends nothing, \<open>Inr (Some p)\<close> when it appends \<open>p\<close>, \<open>Inl e\<close> when it raises.
\<close>

definition process_line :: "(int \<Rightarrow> bool) \<Rightarrow> string \<Rightarrow> error + IPPackage option" where
  "process_line log2_rounds_up line =
     (if contains line ''allocated'' \<or> contains line ''assigned'' then
        let parts = parts_of line in
        if length parts \<ge> 5 then
          let country = parts ! 1;
              ip_type = parts ! 2;
              ip_address = parts ! 3;
              value = parts ! 4
          in if ip_type = ''ipv4'' \<and> isdigit value then
               (case py_int value of
                  None \<Rightarrow> Inl ValueError
                | Some n \<Rightarrow>
                    (case int_32_minus_log2 log2_rounds_up n of
                       Inl e \<Rightarrow> Inl e
                     | Inr p \<Rightarrow>
                         Inr (Some \<lparr>country = country, ip = ip_address,
                                    prefix_length = py_str p, version = ip_type\<rparr>)))
             else if ip_type = ''ipv6'' \<and> isdigit value then
               Inr (Some \<lparr>country = country, ip = ip_address,
                          prefix_length = value, version = ip_type\<rparr>)
             else Inr None
        else Inr None
      else Inr None)"

fun process_lines :: "(int \<Rightarrow> bool) \<Rightarrow> string list \<Rightarrow> error + IPPackage list" where
  "process_lines log2_rounds_up [] = Inr []"
| "process_lines log2_rounds_up (l # ls) =
     (case process_line log2_rounds_up l of
        Inl e \<Rightarrow> Inl e
      | Inr r \<Rightarrow>
          (case process_lines log2_rounds_up ls of
             Inl e \<Rightarrow> Inl e
           | Inr ps \<Rightarrow> Inr (case r of None \<Rightarrow> ps | Some p \<Rightarrow> p # ps)))"

text \<open>
  \<open>process_region_data\<close> on the content of the region's file; \<open>None\<close> is a file that
  does not exist.
\<close>

definition process_region_data ::
  "(int \<Rightarrow> bool) \<Rightarrow> string option \<Rightarrow> error + IPPackage list" where
  "process_region_data log2_rounds_up file =
     (case file of
        None \<Rightarrow> Inl FileNotFoundError
      | Some text \<Rightarrow> process_lines log2_rounds_up (file_lines text))"

text \<open>
  \<open>sort_ip_data\<close>. The standard library's \<open>ipaddress.IPv4Address\<close> and
  \<open>ipaddress.IPv6Address\<close> are parameters: each gives the integer of an address it
  accepts and \<open>None\<close> where it raises, which the source's \<open>except\<close> turns into 0.
  \<open>sorted\<close> is a stable sort by key, as \<open>sort_key\<close> is; key tuples compare
  lexicographically.
\<close>

definition ip_sort_key ::
  "(string \<Rightarrow> int option) \<Rightarrow> (string \<Rightarrow> int option) \<Rightarrow> IPPackage \<Rightarrow> string \<times> string \<times> int" where
  "ip_sort_key IPv4Address IPv6Address package =
     (let ip_int =
            (if version package = ''ipv4'' then
               (case IPv4Address (ip package) of Some n \<Rightarrow> n | None \<Rightarrow> 0)
             else
               (case IPv6Address (ip package) of Some n \<Rightarrow> n | None \<Rightarrow> 0))
      in (country package, version package, ip_int))"

definition sort_ip_data ::
  "(string \<Rightarrow> int option) \<Rightarrow> (string \<Rightarrow> int option) \<Rightarrow> IPPackage list \<Rightarrow> IPPackage list" where
  "sort_ip_data IPv4Address IPv6Address ip_data =
     sort_key (ip_sort_key IPv4Address IPv6Address) ip_data"

text \<open>
  A file is its path and its content. The encodings are not modelled: \<open>Rows\<close> is the
  records of a CSV or JSON file in the order written, \<open>Lines\<close> the lines of a text
  listing, and the two summary contents are those of the ASN summary files.
\<close>

datatype 'r content =
    Rows "'r list"
  | Lines "string list"
  | Summary nat "(string \<times> nat) list" "(string \<times> nat) list" "(string \<times> nat) list" nat nat
  | SummaryText nat nat nat "(string \<times> nat) list" "(string \<times> nat) list"

type_synonym 'r artifact = "string \<times> 'r content"

text \<open>
  Opening a file for writing is the parameter \<open>open_error\<close>: the error that
  \<open>open(path, 'w')\<close> raises, \<open>None\<close> when the file opens. It stands for the file
  system after \<open>create_directories\<close>, and does not change during a run, which creates no
  directory later. A file written earlier in the run can change the kind of a later
  error (a path through that file is refused as no directory), not whether the path
  opens; the general theorems below hold for every \<open>open_error\<close>. An outcome is the
  files written so far, in order, and the error that ended the writing, if any. A file
  that opens is written whole: an error while writing
  into an open file is not modelled. Two paths can name one file; an outcome lists each
  write under the path it was opened with.
\<close>

type_synonym 'r outcome = "'r artifact list \<times> error option"

fun write_files :: "(string \<Rightarrow> error option) \<Rightarrow> 'r artifact list \<Rightarrow> 'r outcome" where
  "write_files open_error [] = ([], None)"
| "write_files open_error ((path, c) # rest) =
     (case open_error path of
        Some e \<Rightarrow> ([], Some e)
      | None \<Rightarrow> ((path, c) # fst (write_files open_error rest),
                 snd (write_files open_error rest)))"

text \<open>Steps run in turn: the first error ends the run, and what was written before stays.\<close>

fun in_turn :: "'r outcome list \<Rightarrow> 'r outcome" where
  "in_turn [] = ([], None)"
| "in_turn (step # rest) =
     (case snd step of
        Some e \<Rightarrow> step
      | None \<Rightarrow> (fst step @ fst (in_turn rest), snd (in_turn rest)))"

text \<open>
  The directories \<open>create_directories\<close> of \<open>build.py\<close> makes. \<open>opens_in\<close> is an
  instance of \<open>open_error\<close>, for examples: a path opens when it is a non-empty name
  directly inside one of the given directories, and every other path is refused with
  \<open>FileNotFoundError\<close>, as a path through a directory that does not exist is. It also
  refuses the paths that reach one of the directories through \<open>.\<close> or \<open>..\<close>.
\<close>

definition build_directories :: "string list" where
  "build_directories =
     [''IANASources'',
      ''CSV'', ''CSV/IPV4'', ''CSV/IPV6'',
      ''JSON'', ''JSON/IPV4'', ''JSON/IPV6'',
      ''TXT'', ''TXT/IPV4'', ''TXT/IPV6'']"

fun join :: "string \<Rightarrow> string list \<Rightarrow> string" where
  "join sep [] = []"
| "join sep [x] = x"
| "join sep (x # y # ys) = x @ sep @ join sep (y # ys)"

definition opens_in :: "string list \<Rightarrow> string \<Rightarrow> error option" where
  "opens_in directories path =
     (let parts = split_on CHR ''/'' path
      in if last parts \<noteq> [] \<and> join ''/'' (butlast parts) \<in> set directories then None
         else Some FileNotFoundError)"

definition export_countries_list ::
  "(string \<Rightarrow> error option) \<Rightarrow> IPPackage list \<Rightarrow> IPPackage outcome" where
  "export_countries_list open_error sorted_data =
     (let countries = sort (remdups (map country sorted_data))
      in write_files open_error
           [(''CSV/countries.csv'', Lines countries),
            (''JSON/countries.json'', Lines countries),
            (''TXT/countries.txt'', Lines countries)])"

definition export_global_data ::
  "(string \<Rightarrow> error option) \<Rightarrow> IPPackage list \<Rightarrow> IPPackage outcome" where
  "export_global_data open_error sorted_data =
     write_files open_error
       [(''CSV/global.csv'', Rows sorted_data),
        (''JSON/global.json'', Rows sorted_data),
        (''JSON/global_compressed.json'', Rows sorted_data)]"

definition export_version_specific_data ::
  "(string \<Rightarrow> error option) \<Rightarrow> IPPackage list \<Rightarrow> string \<Rightarrow> IPPackage outcome" where
  "export_version_specific_data open_error sorted_data v =
     (let version_data = filter (\<lambda>pkg. version pkg = v) sorted_data
      in write_files open_error
           [(''CSV/global_'' @ v @ ''.csv'', Rows version_data),
            (''JSON/global_'' @ v @ ''.json'', Rows version_data),
            (''JSON/global_'' @ v @ ''_compressed.json'', Rows version_data)])"

text \<open>
  \<open>country_data\<close> of \<open>export_country_data\<close>: a dictionary in insertion order from
  the country to its \<open>ipv4\<close> and \<open>ipv6\<close> lists. A missing country is entered with two
  empty lists; a version that is neither key raises \<open>KeyError\<close>.
\<close>

type_synonym country_dict = "(string \<times> IPPackage list \<times> IPPackage list) list"

definition append_version ::
  "IPPackage \<Rightarrow> IPPackage list \<times> IPPackage list \<Rightarrow> error + IPPackage list \<times> IPPackage list" where
  "append_version pkg versions =
     (if version pkg = ''ipv4'' then Inr (fst versions @ [pkg], snd versions)
      else if version pkg = ''ipv6'' then Inr (fst versions, snd versions @ [pkg])
      else Inl KeyError)"

fun add_package :: "IPPackage \<Rightarrow> country_dict \<Rightarrow> error + country_dict" where
  "add_package pkg [] =
     (case append_version pkg ([], []) of
        Inl e \<Rightarrow> Inl e
      | Inr versions \<Rightarrow> Inr [(country pkg, versions)])"
| "add_package pkg ((c, versions) # rest) =
     (if c = country pkg then
        (case append_version pkg versions of
           Inl e \<Rightarrow> Inl e
         | Inr versions' \<Rightarrow> Inr ((c, versions') # rest))
      else
        (case add_package pkg rest of
           Inl e \<Rightarrow> Inl e
         | Inr rest' \<Rightarrow> Inr ((c, versions) # rest')))"

fun group_packages :: "IPPackage list \<Rightarrow> country_dict \<Rightarrow> error + country_dict" where
  "group_packages [] country_data = Inr country_data"
| "group_packages (pkg # pkgs) country_data =
     (case add_package pkg country_data of
        Inl e \<Rightarrow> Inl e
      | Inr country_data' \<Rightarrow> group_packages pkgs country_data')"

text \<open>The \<open>ipv4\<close> and \<open>ipv6\<close> lists a country dictionary holds for a country.\<close>

definition ipv4_of :: "country_dict \<Rightarrow> string \<Rightarrow> IPPackage list" where
  "ipv4_of d c = (case map_of d c of None \<Rightarrow> [] | Some v \<Rightarrow> fst v)"

definition ipv6_of :: "country_dict \<Rightarrow> string \<Rightarrow> IPPackage list" where
  "ipv6_of d c = (case map_of d c of None \<Rightarrow> [] | Some v \<Rightarrow> snd v)"

definition cidr :: "IPPackage \<Rightarrow> string" where
  "cidr pkg = ip pkg @ ''/'' @ prefix_length pkg"

text \<open>
  The three files the export opens in turn for one country and version, none for an empty
  list. The country is put into the path as it is.
\<close>

definition country_files :: "string \<Rightarrow> string \<Rightarrow> IPPackage list \<Rightarrow> IPPackage artifact list" where
  "country_files c v packages =
     (if packages = [] then []
      else [(''CSV/'' @ upper v @ ''/'' @ c @ ''.csv'', Rows packages),
            (''JSON/'' @ upper v @ ''/'' @ c @ ''.json'', Rows packages),
            (''TXT/'' @ upper v @ ''/'' @ c @ ''.txt'', Lines (map cidr packages))])"

definition export_country_data ::
  "(string \<Rightarrow> error option) \<Rightarrow> IPPackage list \<Rightarrow> IPPackage outcome" where
  "export_country_data open_error sorted_data =
     (case group_packages sorted_data [] of
        Inl e \<Rightarrow> ([], Some e)
      | Inr country_data \<Rightarrow>
          write_files open_error
            (concat (map (\<lambda>(c, versions).
                       country_files c ''ipv4'' (fst versions)
                       @ country_files c ''ipv6'' (snd versions))
                     country_data)))"

text \<open>
  \<open>main\<close> of \<open>build.py\<close> after the directories are made and the downloads are over:
  \<open>files\<close> gives the content of each region's file under \<open>IANASources\<close>, \<open>None\<close>
  where there is none. A region whose processing raises contributes nothing. The result is
  the outcome of the exports; what the run prints is not modelled.
\<close>

definition REGIONS_DELEGATED :: "string list" where
  "REGIONS_DELEGATED =
     [''delegated-apnic-latest'', ''delegated-arin-extended-latest'',
      ''delegated-ripencc-latest'', ''delegated-afrinic-latest'',
      ''delegated-lacnic-latest'']"

definition region_records ::
  "(int \<Rightarrow> bool) \<Rightarrow> (string \<Rightarrow> string option) \<Rightarrow> string \<Rightarrow> IPPackage list" where
  "region_records log2_rounds_up files region =
     (case process_region_data log2_rounds_up (files (''IANASources/'' @ region @ ''.txt'')) of
        Inl e \<Rightarrow> []
      | Inr region_data \<Rightarrow> region_data)"

definition build_main ::
  "(int \<Rightarrow> bool) \<Rightarrow> (string \<Rightarrow> int option) \<Rightarrow> (string \<Rightarrow> int option)
     \<Rightarrow> (string \<Rightarrow> error option) \<Rightarrow> (string \<Rightarrow> string option) \<Rightarrow> IPPackage outcome" where
  "build_main log2_rounds_up IPv4Address IPv6Address open_error files =
     (let all_ip_data = concat (map (region_records log2_rounds_up files) REGIONS_DELEGATED);
          sorted_data = sort_ip_data IPv4Address IPv6Address all_ip_data
      in in_turn
           [export_countries_list open_error sorted_data,
            export_global_data open_error sorted_data,
            export_version_specific_data open_error sorted_data ''ipv4'',
            export_version_specific_data open_error sorted_data ''ipv6'',
            export_country_data open_error sorted_data])"

section \<open>Autonomous system numbers: \<open>build-asn.py\<close>\<close>

record ASNEntry =
  registry :: string
  asn_country :: string
  asn :: string
  asn_value :: string
  date :: string
  status :: string

text \<open>
  One iteration of the loop of \<open>process_asn_data\<close>: the entry the line appends, if any.
  Nothing here raises.
\<close>

definition process_asn_line :: "string \<Rightarrow> ASNEntry option" where
  "process_asn_line line =
     (if line \<noteq> [] \<and> \<not> startswith line ''#'' then
        let parts = parts_of line in
        if length parts \<ge> 7 \<and> parts ! 2 = ''asn'' then
          let asn_type = parts ! 2;
              st = parts ! 6
          in if asn_type = ''asn'' \<and> (st = ''allocated'' \<or> st = ''assigned'') then
               Some \<lparr>registry = parts ! 0, asn_country = parts ! 1, asn = parts ! 3,
                     asn_value = parts ! 4, date = parts ! 5, status = st\<rparr>
             else None
        else None
      else None)"

definition process_asn_data :: "string \<Rightarrow> string \<Rightarrow> ASNEntry list" where
  "process_asn_data registry_name data = List.map_filter process_asn_line (split_on LF data)"

text \<open>
  \<open>download_and_process_asn\<close> on the response of the request; \<open>None\<close> is a request
  that failed, which the source's \<open>except\<close> turns into no entries.
\<close>

definition download_and_process_asn :: "string \<Rightarrow> string option \<Rightarrow> ASNEntry list" where
  "download_and_process_asn registry_name response =
     (case response of
        None \<Rightarrow> []
      | Some text \<Rightarrow> process_asn_data registry_name text)"

text \<open>
  \<open>sorted(entries, key=lambda x: int(x.asn))\<close>: the keys are computed first, and one
  that raises ends the sort with \<open>ValueError\<close>; then the entries are sorted stably by
  their keys.
\<close>

definition sorted_by_asn :: "ASNEntry list \<Rightarrow> error + ASNEntry list" where
  "sorted_by_asn entries =
     (case those (map (\<lambda>x. py_int (asn x)) entries) of
        None \<Rightarrow> Inl ValueError
      | Some keys \<Rightarrow> Inr (map snd (sort_key fst (zip keys entries))))"

text \<open>
  The three files the export opens in turn for one sorted view. The name, a country or a
  registry, is put into the path as it is.
\<close>

definition asn_files :: "string \<Rightarrow> string \<Rightarrow> ASNEntry list \<Rightarrow> ASNEntry artifact list" where
  "asn_files dir name sorted_entries =
     [(''ASN/CSV/'' @ dir @ name @ ''.csv'', Rows sorted_entries),
      (''ASN/JSON/'' @ dir @ name @ ''.json'', Rows sorted_entries),
      (''ASN/TXT/'' @ dir @ name @ ''.txt'', Lines (map asn sorted_entries))]"

definition export_global_asn_data ::
  "(string \<Rightarrow> error option) \<Rightarrow> ASNEntry list \<Rightarrow> ASNEntry outcome" where
  "export_global_asn_data open_error all_asn_data =
     (case sorted_by_asn all_asn_data of
        Inl e \<Rightarrow> ([], Some e)
      | Inr sorted_data \<Rightarrow> write_files open_error (asn_files [] ''global_asn'' sorted_data))"

text \<open>
  \<open>defaultdict(list)\<close> filled by appending each entry under its key: a dictionary in
  insertion order.
\<close>

fun append_under :: "'k \<Rightarrow> 'v \<Rightarrow> ('k \<times> 'v list) list \<Rightarrow> ('k \<times> 'v list) list" where
  "append_under k v [] = [(k, [v])]"
| "append_under k v ((k', vs) # rest) =
     (if k' = k then (k', vs @ [v]) # rest else (k', vs) # append_under k v rest)"

fun group_under :: "('v \<Rightarrow> 'k) \<Rightarrow> 'v list \<Rightarrow> ('k \<times> 'v list) list \<Rightarrow> ('k \<times> 'v list) list" where
  "group_under f [] d = d"
| "group_under f (x # xs) d = group_under f xs (append_under (f x) x d)"

definition group_by :: "('v \<Rightarrow> 'k) \<Rightarrow> 'v list \<Rightarrow> ('k \<times> 'v list) list" where
  "group_by f xs = group_under f xs []"

text \<open>The body of a loop run for the items of a dictionary in turn.\<close>

definition for_each :: "('a \<Rightarrow> 'r outcome) \<Rightarrow> 'a list \<Rightarrow> 'r outcome" where
  "for_each body xs = in_turn (map body xs)"

definition export_by_country ::
  "(string \<Rightarrow> error option) \<Rightarrow> ASNEntry list \<Rightarrow> ASNEntry outcome" where
  "export_by_country open_error all_asn_data =
     for_each (\<lambda>(c, entries).
         if c \<noteq> [] \<and> c \<noteq> ''*'' then
           (case sorted_by_asn entries of
              Inl e \<Rightarrow> ([], Some e)
            | Inr sorted_entries \<Rightarrow>
                write_files open_error (asn_files ''BY_COUNTRY/'' c sorted_entries))
         else ([], None))
       (group_by asn_country all_asn_data)"

definition export_by_registry ::
  "(string \<Rightarrow> error option) \<Rightarrow> ASNEntry list \<Rightarrow> ASNEntry outcome" where
  "export_by_registry open_error all_asn_data =
     for_each (\<lambda>(r, entries).
         case sorted_by_asn entries of
           Inl e \<Rightarrow> ([], Some e)
         | Inr sorted_entries \<Rightarrow>
             write_files open_error (asn_files ''BY_REGISTRY/'' r sorted_entries))
       (group_by registry all_asn_data)"

text \<open>
  \<open>export_summary\<close>: the counts per country, registry and status, in the order the
  source sorts them (descending count, stable; then lexicographic), and the two files.
\<close>

definition count_by :: "('v \<Rightarrow> string) \<Rightarrow> 'v list \<Rightarrow> (string \<times> nat) list" where
  "count_by f xs = map (\<lambda>(k, vs). (k, length vs)) (group_by f xs)"

definition export_summary ::
  "(string \<Rightarrow> error option) \<Rightarrow> ASNEntry list \<Rightarrow> ASNEntry outcome" where
  "export_summary open_error all_asn_data =
     (let total_asns = length all_asn_data;
          by_country = count_by asn_country all_asn_data;
          by_registry = count_by registry all_asn_data;
          by_status = count_by status all_asn_data;
          descending = sort_key (\<lambda>x. - int (snd x)) by_country
      in write_files open_error
           [(''ASN/JSON/summary.json'',
               Summary total_asns descending (sort by_registry) (sort by_status)
                 (length by_country) (length by_registry)),
            (''ASN/TXT/summary.txt'',
               SummaryText total_asns (length by_country) (length by_registry)
                 (sort by_registry) (take 10 descending))])"

text \<open>
  The directories \<open>create_directories\<close> of \<open>build-asn.py\<close> makes.
\<close>

definition asn_directories :: "string list" where
  "asn_directories =
     [''ASN'',
      ''ASN/CSV'', ''ASN/CSV/BY_COUNTRY'', ''ASN/CSV/BY_REGISTRY'',
      ''ASN/JSON'', ''ASN/JSON/BY_COUNTRY'', ''ASN/JSON/BY_REGISTRY'',
      ''ASN/TXT'', ''ASN/TXT/BY_COUNTRY'', ''ASN/TXT/BY_REGISTRY'']"

text \<open>
  \<open>main\<close> of \<open>build-asn.py\<close> after the directories are made: \<open>responses\<close> are the
  registries with the response each request got, in the order the requests complete. With
  no entry collected the run prints its message and returns before any export; otherwise
  the result is the outcome of the exports.
\<close>

datatype 'r run = Exit string | Exported "'r artifact list" "error option"

definition build_asn_main ::
  "(string \<Rightarrow> error option) \<Rightarrow> (string \<times> string option) list \<Rightarrow> ASNEntry run" where
  "build_asn_main open_error responses =
     (let all_asn_data = concat (map (\<lambda>(r, response). download_and_process_asn r response) responses)
      in if all_asn_data = [] then Exit ''No ASN data collected. Exiting.''
         else
           (let outcome = in_turn
                  [export_global_asn_data open_error all_asn_data,
                   export_by_country open_error all_asn_data,
                   export_by_registry open_error all_asn_data,
                   export_summary open_error all_asn_data]
            in Exported (fst outcome) (snd outcome)))"

section \<open>Orders and invariants the specification names\<close>

text \<open>
  The canonical order of IP blocks in the specification's words (its 4.4): by country code,
  then by address family with IPv4 before IPv6, then by the integer of the address for its
  family. The integer of an address that does not parse is 0, the fallback the
  specification gives. This is written from the specification, not from the sort key of
  the source.
\<close>

definition address_value ::
  "(string \<Rightarrow> int option) \<Rightarrow> (string \<Rightarrow> int option) \<Rightarrow> IPPackage \<Rightarrow> int" where
  "address_value IPv4Address IPv6Address r =
     (if version r = ''ipv4'' then (case IPv4Address (ip r) of None \<Rightarrow> 0 | Some n \<Rightarrow> n)
      else if version r = ''ipv6'' then (case IPv6Address (ip r) of None \<Rightarrow> 0 | Some n \<Rightarrow> n)
      else 0)"

definition family_rank :: "IPPackage \<Rightarrow> nat" where
  "family_rank r = (if version r = ''ipv4'' then 0 else 1)"

definition canonical_le ::
  "(string \<Rightarrow> int option) \<Rightarrow> (string \<Rightarrow> int option) \<Rightarrow> IPPackage \<Rightarrow> IPPackage \<Rightarrow> bool" where
  "canonical_le IPv4Address IPv6Address a b =
     (country a < country b
      \<or> (country a = country b
          \<and> (family_rank a < family_rank b
              \<or> (family_rank a = family_rank b
                  \<and> address_value IPv4Address IPv6Address a
                       \<le> address_value IPv4Address IPv6Address b))))"

text \<open>The records the claims are about have one of the two families.\<close>

definition has_family :: "IPPackage \<Rightarrow> bool" where
  "has_family r = (version r = ''ipv4'' \<or> version r = ''ipv6'')"

text \<open>The order of ASN records: both numbers read as integers, in non-decreasing order.\<close>

definition asn_le :: "ASNEntry \<Rightarrow> ASNEntry \<Rightarrow> bool" where
  "asn_le a b =
     (case (py_int (asn a), py_int (asn b)) of
        (Some m, Some n) \<Rightarrow> m \<le> n
      | _ \<Rightarrow> False)"

text \<open>
  An instance of the \<open>IPv4Address\<close> parameter, for examples: the big-endian integer of
  four decimal octets separated by dots, each of one to three ASCII digits, at most 255
  and without a leading zero.
\<close>

definition octet :: "string \<Rightarrow> nat option" where
  "octet s =
     (if s \<noteq> [] \<and> list_all is_decimal s \<and> length s \<le> 3 \<and> (s = ''0'' \<or> hd s \<noteq> CHR ''0'') then
        (case int_body s of
           None \<Rightarrow> None
         | Some n \<Rightarrow> if n \<le> 255 then Some n else None)
      else None)"

definition dotted_quad :: "string \<Rightarrow> int option" where
  "dotted_quad s =
     (let octets = split_on CHR ''.'' s
      in if length octets \<noteq> 4 then None
         else (case those (map octet octets) of
                 None \<Rightarrow> None
               | Some ns \<Rightarrow> Some (foldl (\<lambda>acc n. acc * 256 + int n) 0 ns)))"

text \<open>
  The invariant of the specification's data model on the prefix length of a record, read
  as an integer: within 0 to 32 for \<open>ipv4\<close>, within 0 to 128 for \<open>ipv6\<close>.
\<close>

definition prefix_in_range :: "IPPackage \<Rightarrow> bool" where
  "prefix_in_range p =
     (case py_int (prefix_length p) of
        None \<Rightarrow> False
      | Some n \<Rightarrow> 0 \<le> n \<and> n \<le> (if version p = ''ipv4'' then 32 else 128))"

section \<open>Properties\<close>

declare floor_log2.simps [simp del]
declare nat_digits.simps [simp del]

lemmas text_defs = parts_of_def strip_def isspace_def code_point_def isdigit_def
  is_digit_char_def is_decimal_def py_int_def int_literal_def max_str_digits_def int_space_def
  int_body_def digit_value_def py_str_def digit_char_def LF_def CR_def file_lines_def upper_def
  upper_char_def

lemmas ip_defs = build_main_def region_records_def process_region_data_def process_line_def
  REGIONS_DELEGATED_def sort_ip_data_def ip_sort_key_def export_country_data_def
  export_countries_list_def export_global_data_def export_version_specific_data_def
  country_files_def append_version_def cidr_def int_32_minus_log2_def
  floor_log2.simps nat_digits.simps

lemmas asn_defs = build_asn_main_def download_and_process_asn_def process_asn_data_def
  process_asn_line_def export_global_asn_data_def export_by_country_def export_by_registry_def
  export_summary_def sorted_by_asn_def asn_files_def group_by_def count_by_def for_each_def
  List.map_filter_def

lemmas open_defs = opens_in_def build_directories_def asn_directories_def

subsection \<open>The prefix length of an accepted line\<close>

lemma floor_log2_power: "floor_log2 (2 ^ k) = k"
proof (induction k)
  case 0
  show ?case by (simp add: floor_log2.simps)
next
  case (Suc k)
  have "floor_log2 (2 ^ Suc k) = Suc (floor_log2 (2 ^ Suc k div 2))"
    by (subst floor_log2.simps) simp
  with Suc show ?case by simp
qed

lemma int_32_minus_log2_power: "int_32_minus_log2 up (2 ^ k) = Inr (32 - int k)"
  by (simp add: int_32_minus_log2_def Let_def nat_power_eq floor_log2_power)

text \<open>
  C1. When a line of an IP-block file appends a record, the record's version is the
  line's type field; for \<open>ipv4\<close> with a value that reads as \<open>2 ^ k\<close> the prefix length
  is the decimal string of \<open>32 - k\<close>, and for \<open>ipv6\<close> the prefix length is the value
  field unchanged.
\<close>

theorem prefix_deriver:
  assumes "process_line log2_rounds_up line = Inr (Some p)"
  shows "(version p = ''ipv4'' \<and> py_int (parts_of line ! 4) = Some (2 ^ k)
            \<longrightarrow> prefix_length p = py_str (32 - int k))
       \<and> (version p = ''ipv6'' \<longrightarrow> prefix_length p = parts_of line ! 4)
       \<and> version p = parts_of line ! 2"
  using assms int_32_minus_log2_power [of log2_rounds_up k]
  by (auto simp: process_line_def Let_def split: if_splits option.splits sum.splits)

theorem prefix_deriver_witness:
  "process_line (\<lambda>n. False) ''apnic|JP|ipv4|103.0.0.0|256|20120101|allocated''
     = Inr (Some \<lparr>country = ''JP'', ip = ''103.0.0.0'', prefix_length = ''24'', version = ''ipv4''\<rparr>)
   \<and> py_int (parts_of ''apnic|JP|ipv4|103.0.0.0|256|20120101|allocated'' ! 4) = Some (2 ^ 8)
   \<and> py_str (32 - int 8) = ''24''
   \<and> process_line (\<lambda>n. False) ''ripencc|DE|ipv6|2a00::|29|20120101|assigned''
     = Inr (Some \<lparr>country = ''DE'', ip = ''2a00::'', prefix_length = ''29'', version = ''ipv6''\<rparr>)
   \<and> parts_of ''ripencc|DE|ipv6|2a00::|29|20120101|assigned'' ! 4 = ''29''"
proof -
  let ?l4 = "''apnic|JP|ipv4|103.0.0.0|256|20120101|allocated''"
  let ?p4 = "\<lparr>country = ''JP'', ip = ''103.0.0.0'', prefix_length = ''24'', version = ''ipv4''\<rparr>"
  let ?l6 = "''ripencc|DE|ipv6|2a00::|29|20120101|assigned''"
  let ?p6 = "\<lparr>country = ''DE'', ip = ''2a00::'', prefix_length = ''29'', version = ''ipv6''\<rparr>"
  have a: "process_line (\<lambda>n. False) ?l4 = Inr (Some ?p4)"
    by (simp add: process_line_def int_32_minus_log2_def floor_log2.simps nat_digits.simps
        text_defs)
  have b: "process_line (\<lambda>n. False) ?l6 = Inr (Some ?p6)"
    by (simp add: process_line_def text_defs)
  have c: "py_int (parts_of ?l4 ! 4) = Some (2 ^ 8)"
    by (simp add: text_defs)
  have d: "parts_of ?l6 ! 4 = ''29''"
    by (simp add: text_defs)
  from prefix_deriver [OF a, of 8] prefix_deriver [OF b, of 0] a b c d
  show ?thesis by simp
qed

subsection \<open>Decimal strings\<close>

lemma digit_char_decimal:
  assumes "k < 10"
  shows "is_decimal (digit_char k) \<and> digit_value (digit_char k) = k"
proof -
  from assms have "k = 0 \<or> k = 1 \<or> k = 2 \<or> k = 3 \<or> k = 4 \<or> k = 5 \<or> k = 6 \<or> k = 7
      \<or> k = 8 \<or> k = 9"
    by arith
  then show ?thesis
    by (elim disjE) (simp_all add: is_decimal_def digit_value_def digit_char_def code_point_def)
qed

lemma decimal_not_space: "is_decimal c \<Longrightarrow> \<not> int_space c \<and> c \<noteq> CHR ''-'' \<and> c \<noteq> CHR ''+''"
  by (auto simp: is_decimal_def int_space_def Let_def code_point_def)

lemma int_digits_snoc:
  "is_decimal d \<Longrightarrow> list_all is_decimal xs
   \<Longrightarrow> int_digits acc (xs @ [d]) = map_option (\<lambda>v. 10 * v + digit_value d) (int_digits acc xs)"
  by (induction acc xs rule: int_digits.induct) auto

lemma nat_digits_decimal: "nat_digits n \<noteq> [] \<and> list_all is_decimal (nat_digits n)"
proof (induction n rule: nat_digits.induct)
  case (1 n)
  show ?case
  proof (cases "n < 10")
    case True
    then show ?thesis
      by (subst (1 2) nat_digits.simps) (simp add: digit_char_decimal)
  next
    case False
    with 1 show ?thesis
      by (subst (1 2) nat_digits.simps) (simp add: digit_char_decimal)
  qed
qed

lemma int_digits_nat_digits: "int_digits 0 (nat_digits n) = Some n"
proof (induction n rule: nat_digits.induct)
  case (1 n)
  show ?case
  proof (cases "n < 10")
    case True
    then show ?thesis
      by (subst nat_digits.simps) (simp add: digit_char_decimal)
  next
    case False
    then have d: "is_decimal (digit_char (n mod 10))"
      and v: "digit_value (digit_char (n mod 10)) = n mod 10"
      by (simp_all add: digit_char_decimal)
    from False 1 have "int_digits 0 (nat_digits (n div 10)) = Some (n div 10)"
      by simp
    with int_digits_snoc [OF d, of "nat_digits (n div 10)" 0] nat_digits_decimal [of "n div 10"] v
    have "int_digits 0 (nat_digits (n div 10) @ [digit_char (n mod 10)]) = Some n"
      by simp
    with False show ?thesis
      by (subst nat_digits.simps) simp
  qed
qed

lemma int_body_decimal:
  assumes "s \<noteq> []" and "list_all is_decimal s"
  shows "int_body s = int_digits 0 s"
proof -
  from assms(1) obtain c cs where s: "s = c # cs" by (cases s) auto
  with assms(2) show ?thesis
    by (cases cs) (simp_all add: int_body_def)
qed

lemma int_body_nat_digits: "int_body (nat_digits n) = Some n"
  using int_body_decimal [of "nat_digits n"] nat_digits_decimal [of n]
  by (simp add: int_digits_nat_digits)

lemma int_literal_nat_digits:
  "int_literal (nat_digits n) = (if length (nat_digits n) > max_str_digits then None else Some n)"
proof -
  from nat_digits_decimal [of n] have "filter is_decimal (nat_digits n) = nat_digits n"
    by (simp add: list_all_iff)
  then show ?thesis
    by (simp add: int_literal_def int_body_nat_digits)
qed

lemma nat_digits_small: "n < 100 \<Longrightarrow> length (nat_digits n) \<le> 2"
proof -
  assume n: "n < 100"
  show ?thesis
  proof (cases "n < 10")
    case True
    then show ?thesis by (subst nat_digits.simps) simp
  next
    case False
    with n have "n div 10 < 10" by simp
    then have "length (nat_digits (n div 10)) = 1"
      by (subst nat_digits.simps) simp
    with False show ?thesis by (subst nat_digits.simps) simp
  qed
qed

lemma strip_nat_digits:
  "rev (dropWhile int_space (rev (dropWhile int_space (nat_digits n)))) = nat_digits n"
proof -
  from nat_digits_decimal [of n] have ne: "nat_digits n \<noteq> []"
    and all: "list_all is_decimal (nat_digits n)"
    by simp_all
  from ne all have "\<not> int_space (hd (nat_digits n))"
    by (cases "nat_digits n") (auto simp: decimal_not_space)
  with ne have a: "dropWhile int_space (nat_digits n) = nat_digits n"
    by (cases "nat_digits n") auto
  from ne all have "\<not> int_space (last (nat_digits n))"
    by (metis decimal_not_space last_in_set list_all_iff)
  with ne have "dropWhile int_space (rev (nat_digits n)) = rev (nat_digits n)"
    by (cases "rev (nat_digits n)") (auto simp: last_rev hd_rev)
  with a show ?thesis by simp
qed

lemma py_int_py_str:
  "py_int (py_str i) =
     (if length (nat_digits (nat \<bar>i\<bar>)) > max_str_digits then None else Some i)"
proof (cases "i < 0")
  case True
  have "\<not> int_space CHR ''-''"
    by (simp add: int_space_def Let_def code_point_def)
  then have a: "dropWhile int_space (CHR ''-'' # nat_digits (nat (- i))) = CHR ''-'' # nat_digits (nat (- i))"
    by simp
  from nat_digits_decimal [of "nat (- i)"] have "\<not> int_space (last (nat_digits (nat (- i))))"
    by (metis decimal_not_space last_in_set list_all_iff)
  with nat_digits_decimal [of "nat (- i)"]
  have "dropWhile int_space (rev (CHR ''-'' # nat_digits (nat (- i)))) = rev (CHR ''-'' # nat_digits (nat (- i)))"
    by (cases "rev (nat_digits (nat (- i)))") (auto simp: last_rev hd_rev)
  moreover from True have "nat \<bar>i\<bar> = nat (- i)" by simp
  ultimately show ?thesis
    using a True by (simp add: py_int_def py_str_def int_literal_nat_digits)
next
  case False
  from nat_digits_decimal [of "nat i"] obtain c cs where c: "nat_digits (nat i) = c # cs" "is_decimal c"
    by (cases "nat_digits (nat i)") auto
  from False have "nat \<bar>i\<bar> = nat i" by simp
  with c decimal_not_space [of c] int_literal_nat_digits [of "nat i"] strip_nat_digits [of "nat i"] False
  show ?thesis
    by (simp add: py_int_def py_str_def)
qed

lemma py_int_py_str_small: "0 \<le> i \<Longrightarrow> i < 100 \<Longrightarrow> py_int (py_str i) = Some i"
proof -
  assume i: "0 \<le> i" "i < 100"
  then have "nat \<bar>i\<bar> < 100" by simp
  from nat_digits_small [OF this] show ?thesis
    by (simp add: py_int_py_str max_str_digits_def)
qed

lemma py_int_py_str_negative: "i < 0 \<Longrightarrow> py_int (py_str i) = None \<or> py_int (py_str i) = Some i"
  by (simp add: py_int_py_str)

subsection \<open>The range of the prefix length\<close>

lemma floor_log2_bounds: "0 < n \<Longrightarrow> 2 ^ floor_log2 n \<le> n \<and> n < 2 ^ Suc (floor_log2 n)"
proof (induction n rule: floor_log2.induct)
  case (1 n)
  show ?case
  proof (cases "n < 2")
    case True
    with 1(2) have "n = 1" by simp
    then show ?thesis by (simp add: floor_log2.simps)
  next
    case False
    with 1 have ih: "2 ^ floor_log2 (n div 2) \<le> n div 2" "n div 2 < 2 ^ Suc (floor_log2 (n div 2))"
      by simp_all
    from False have f: "floor_log2 n = Suc (floor_log2 (n div 2))"
      by (subst floor_log2.simps) simp
    from ih(1) have "2 * 2 ^ floor_log2 (n div 2) \<le> n" by linarith
    moreover from ih(2) have "n < 2 * 2 ^ Suc (floor_log2 (n div 2))" by linarith
    ultimately show ?thesis by (simp add: f)
  qed
qed

lemma floor_log2_less_iff: "0 < n \<Longrightarrow> floor_log2 n < k \<longleftrightarrow> n < 2 ^ k"
proof
  assume n: "0 < n" and "floor_log2 n < k"
  then have "(2::nat) ^ Suc (floor_log2 n) \<le> 2 ^ k"
    by (intro power_increasing) simp_all
  with floor_log2_bounds [OF n] show "n < 2 ^ k" by linarith
next
  assume n: "0 < n" and "n < 2 ^ k"
  with floor_log2_bounds [OF n] have "(2::nat) ^ floor_log2 n < 2 ^ k" by linarith
  then show "floor_log2 n < k" by simp
qed

lemma int_32_minus_log2_range:
  assumes "int_32_minus_log2 up n = Inr q"
  shows "0 < n" and "q \<le> 32" and "0 \<le> q \<longleftrightarrow> n < 2 ^ 33"
proof -
  from assms show n: "0 < n"
    by (auto simp: int_32_minus_log2_def split: if_splits)
  let ?m = "floor_log2 (nat n)"
  from assms n show "q \<le> 32"
    by (auto simp: int_32_minus_log2_def Let_def split: if_splits)
  from n have "?m < 33 \<longleftrightarrow> nat n < 2 ^ 33"
    by (simp add: floor_log2_less_iff)
  also from n have "\<dots> \<longleftrightarrow> n < 2 ^ 33"
    by (simp add: nat_less_iff)
  finally have m: "?m < 33 \<longleftrightarrow> n < 2 ^ 33" .
  from assms n have "0 \<le> q \<longleftrightarrow> ?m < 33"
    by (auto simp: int_32_minus_log2_def Let_def split: if_splits)
  with m show "0 \<le> q \<longleftrightarrow> n < 2 ^ 33" by simp
qed

text \<open>
  C6, as amended. A record holds the address field of its line unchanged. For \<open>ipv4\<close>
  the value reads as a positive integer and the prefix length is the decimal string of an
  integer that is at most 32; it satisfies the invariant exactly when the value is below
  \<open>2 ^ 33\<close>. For \<open>ipv6\<close> the prefix length is the value field unchanged, a non-empty
  string of digit characters.
\<close>

theorem record_fields_as_built:
  assumes "process_line log2_rounds_up line = Inr (Some p)"
  shows "ip p = parts_of line ! 3
     \<and> (version p = ''ipv4'' \<longrightarrow>
          (\<exists>n q. py_int (parts_of line ! 4) = Some n \<and> 0 < n
             \<and> prefix_length p = py_str q \<and> q \<le> 32
             \<and> (prefix_in_range p \<longleftrightarrow> n < 2 ^ 33)))
     \<and> (version p = ''ipv6'' \<longrightarrow>
          prefix_length p = parts_of line ! 4 \<and> isdigit (parts_of line ! 4))"
proof -
  let ?parts = "parts_of line"
  from assms consider
    (v4) n q where "py_int (?parts ! 4) = Some n" "int_32_minus_log2 log2_rounds_up n = Inr q"
      "p = \<lparr>country = ?parts ! 1, ip = ?parts ! 3, prefix_length = py_str q, version = ''ipv4''\<rparr>"
  | (v6) "isdigit (?parts ! 4)"
      "p = \<lparr>country = ?parts ! 1, ip = ?parts ! 3, prefix_length = ?parts ! 4, version = ''ipv6''\<rparr>"
    by (auto simp: process_line_def Let_def split: if_splits option.splits sum.splits)
  then show ?thesis
  proof cases
    case v4
    from int_32_minus_log2_range [OF v4(2)] have r: "0 < n" "q \<le> 32" "0 \<le> q \<longleftrightarrow> n < 2 ^ 33"
      by simp_all
    have "prefix_in_range p \<longleftrightarrow> 0 \<le> q"
    proof (cases "0 \<le> q")
      case True
      with r(2) have "py_int (py_str q) = Some q"
        by (intro py_int_py_str_small) simp_all
      with True r(2) v4(3) show ?thesis
        by (simp add: prefix_in_range_def)
    next
      case False
      then have "py_int (py_str q) = None \<or> py_int (py_str q) = Some q"
        by (intro py_int_py_str_negative) simp
      with False v4(3) show ?thesis
        by (auto simp: prefix_in_range_def)
    qed
    with r show ?thesis
      using v4(1,3) by auto
  next
    case v6
    then show ?thesis by simp
  qed
qed

theorem record_fields_as_built_witness:
  "process_line (\<lambda>n. False) ''apnic|JP|ipv4|103.0.0.0|768|20120101|allocated''
     = Inr (Some \<lparr>country = ''JP'', ip = ''103.0.0.0'', prefix_length = ''22'', version = ''ipv4''\<rparr>)
   \<and> parts_of ''apnic|JP|ipv4|103.0.0.0|768|20120101|allocated'' ! 3 = ''103.0.0.0''
   \<and> py_int (parts_of ''apnic|JP|ipv4|103.0.0.0|768|20120101|allocated'' ! 4) = Some 768
   \<and> prefix_in_range
       \<lparr>country = ''JP'', ip = ''103.0.0.0'', prefix_length = ''22'', version = ''ipv4''\<rparr>
   \<and> process_line (\<lambda>n. False) ''ripencc|DE|ipv6|2a00::|29|20120101|assigned''
     = Inr (Some \<lparr>country = ''DE'', ip = ''2a00::'', prefix_length = ''29'', version = ''ipv6''\<rparr>)
   \<and> isdigit (parts_of ''ripencc|DE|ipv6|2a00::|29|20120101|assigned'' ! 4)"
proof -
  let ?l4 = "''apnic|JP|ipv4|103.0.0.0|768|20120101|allocated''"
  let ?p4 = "\<lparr>country = ''JP'', ip = ''103.0.0.0'', prefix_length = ''22'', version = ''ipv4''\<rparr>"
  let ?l6 = "''ripencc|DE|ipv6|2a00::|29|20120101|assigned''"
  let ?p6 = "\<lparr>country = ''DE'', ip = ''2a00::'', prefix_length = ''29'', version = ''ipv6''\<rparr>"
  have a: "process_line (\<lambda>n. False) ?l4 = Inr (Some ?p4)"
    by (simp add: ip_defs text_defs)
  have b: "process_line (\<lambda>n. False) ?l6 = Inr (Some ?p6)"
    by (simp add: ip_defs text_defs)
  have c: "py_int (parts_of ?l4 ! 4) = Some 768"
    by (simp add: text_defs)
  from record_fields_as_built [OF a] c have "prefix_in_range ?p4" "parts_of ?l4 ! 3 = ''103.0.0.0''"
    by auto
  moreover from record_fields_as_built [OF b] have "isdigit (parts_of ?l6 ! 4)"
    by simp
  ultimately show ?thesis
    using a b c by simp
qed

text \<open>
  C6 as stated fails: no line is rejected for an address that is no address or for a value
  that is too large. An \<open>ipv6\<close> line with the value 999 and an \<open>ipv4\<close> line with the
  value \<open>2 ^ 33\<close> give records outside the invariant, and a line whose address is no
  address gives a record with that address.
\<close>

theorem invariant_not_enforced:
  "process_line (\<lambda>n. False) ''ripencc|DE|ipv6|2a00::|999|20120101|assigned''
     = Inr (Some \<lparr>country = ''DE'', ip = ''2a00::'', prefix_length = ''999'', version = ''ipv6''\<rparr>)
   \<and> \<not> prefix_in_range
         \<lparr>country = ''DE'', ip = ''2a00::'', prefix_length = ''999'', version = ''ipv6''\<rparr>
   \<and> process_line (\<lambda>n. False) ''apnic|JP|ipv4|103.0.0.0|8589934592|20120101|allocated''
     = Inr (Some \<lparr>country = ''JP'', ip = ''103.0.0.0'', prefix_length = ''-1'', version = ''ipv4''\<rparr>)
   \<and> \<not> prefix_in_range
         \<lparr>country = ''JP'', ip = ''103.0.0.0'', prefix_length = ''-1'', version = ''ipv4''\<rparr>
   \<and> process_line (\<lambda>n. False) ''apnic|JP|ipv4|not-an-address|256|20120101|allocated''
     = Inr (Some \<lparr>country = ''JP'', ip = ''not-an-address'', prefix_length = ''24'',
                   version = ''ipv4''\<rparr>)
   \<and> dotted_quad ''not-an-address'' = None"
  by (simp add: ip_defs prefix_in_range_def dotted_quad_def octet_def text_defs)

subsection \<open>The prefix length as a truncated logarithm\<close>

lemma int_32_minus_log2_real:
  assumes "0 < n" and "n < 2 ^ 40 \<or> \<not> log2_rounds_up n"
  shows "int_32_minus_log2 log2_rounds_up n =
           Inr (let r = 32 - log 2 (real_of_int n) in if 0 \<le> r then \<lfloor>r\<rfloor> else \<lceil>r\<rceil>)"
proof -
  let ?m = "floor_log2 (nat n)"
  let ?r = "32 - log 2 (real_of_int n)"
  from assms(1) have rn: "real_of_int n = real (nat n)" and pos: "0 < nat n"
    by simp_all
  from assms(1) have "?m < 40 \<longleftrightarrow> n < 2 ^ 40"
    by (simp add: floor_log2_less_iff nat_less_iff)
  with assms(2) have up: "?m < 40 \<or> \<not> log2_rounds_up n"
    by blast
  from floor_log2_bounds [OF pos] have lo: "2 ^ ?m \<le> nat n" and hi: "nat n < 2 ^ Suc ?m"
    by simp_all
  from log2_of_power_less [OF hi pos] have hi1: "log 2 (real (nat n)) < real ?m + 1"
    by simp
  show ?thesis
  proof (cases "nat n = 2 ^ ?m")
    case True
    from log2_of_power_eq [OF True] have "?r = of_int (32 - int ?m)"
      by (simp add: rn)
    then have "\<lfloor>?r\<rfloor> = 32 - int ?m" "\<lceil>?r\<rceil> = 32 - int ?m"
      by (simp_all only: floor_of_int ceiling_of_int)
    with True assms(1) show ?thesis
      by (simp add: int_32_minus_log2_def Let_def)
  next
    case False
    with lo have "2 ^ ?m < nat n" by simp
    from less_log2_of_power [OF this] have low: "real ?m < log 2 (real (nat n))" .
    show ?thesis
    proof (cases "?m < 32")
      case True
      from low hi1 have "of_int (31 - int ?m) \<le> ?r" "?r < of_int (31 - int ?m) + 1"
        by (simp_all add: rn)
      then have "\<lfloor>?r\<rfloor> = 31 - int ?m"
        by (rule floor_unique)
      moreover from True hi1 have "0 \<le> ?r"
        by (simp add: rn)
      ultimately show ?thesis
        using True False assms(1) by (simp add: int_32_minus_log2_def Let_def)
    next
      case m: False
      from low hi1 have "of_int (32 - int ?m) - 1 < ?r" "?r \<le> of_int (32 - int ?m)"
        by (simp_all add: rn)
      then have "\<lceil>?r\<rceil> = 32 - int ?m"
        by (rule ceiling_unique)
      moreover from m low have "\<not> 0 \<le> ?r"
        by (simp add: rn)
      ultimately show ?thesis
        using m False assms(1) up by (auto simp: int_32_minus_log2_def Let_def)
    qed
  qed
qed

subsection \<open>Dictionaries in insertion order\<close>

lemma append_under_keys:
  "map fst (append_under k v d) = (if k \<in> fst ` set d then map fst d else map fst d @ [k])"
proof (induction d)
  case Nil
  show ?case by simp
next
  case (Cons e d)
  obtain k' vs where e: "e = (k', vs)" by (cases e)
  show ?case
  proof (cases "k' = k")
    case True
    with e show ?thesis by simp
  next
    case False
    with e Cons show ?thesis by (cases "k \<in> fst ` set d") auto
  qed
qed

lemma append_under_distinct:
  "distinct (map fst d) \<Longrightarrow> distinct (map fst (append_under k v d))"
  by (simp add: append_under_keys)

lemma append_under_map_of:
  "map_of (append_under k v d) =
     (map_of d)(k \<mapsto> (case map_of d k of None \<Rightarrow> [] | Some vs \<Rightarrow> vs) @ [v])"
  by (induction d) (auto simp: fun_eq_iff)

lemma group_under_distinct:
  "distinct (map fst d) \<Longrightarrow> distinct (map fst (group_under f xs d))"
  by (induction xs arbitrary: d) (simp_all add: append_under_distinct)

lemma group_under_keys:
  "fst ` set (group_under f xs d) = fst ` set d \<union> f ` set xs"
proof (induction xs arbitrary: d)
  case Nil
  show ?case by simp
next
  case (Cons x xs)
  have "set (map fst (append_under (f x) x d)) = insert (f x) (set (map fst d))"
    by (simp add: append_under_keys insert_absorb)
  then have "fst ` set (append_under (f x) x d) = insert (f x) (fst ` set d)"
    by simp
  with Cons show ?case by auto
qed

lemma group_under_map_of:
  "(case map_of (group_under f xs d) k of None \<Rightarrow> [] | Some vs \<Rightarrow> vs) =
     (case map_of d k of None \<Rightarrow> [] | Some vs \<Rightarrow> vs) @ filter (\<lambda>x. f x = k) xs"
  by (induction xs arbitrary: d) (auto simp: append_under_map_of)

lemma group_by_entry:
  assumes "(k, vs) \<in> set (group_by f xs)"
  shows "vs = filter (\<lambda>x. f x = k) xs"
proof -
  have "distinct (map fst (group_by f xs))"
    by (simp add: group_by_def group_under_distinct)
  with assms have "map_of (group_by f xs) k = Some vs"
    by simp
  with group_under_map_of [of f xs "[]" k] show ?thesis
    by (simp add: group_by_def)
qed

lemma group_by_keys: "fst ` set (group_by f xs) = f ` set xs"
  by (simp add: group_by_def group_under_keys)

lemma group_by_distinct: "distinct (map fst (group_by f xs))"
  by (simp add: group_by_def group_under_distinct)

subsection \<open>The country dictionary of the IP export\<close>

lemma append_version_Inr:
  "append_version p v = Inr v' \<longleftrightarrow>
     (version p = ''ipv4'' \<and> v' = (fst v @ [p], snd v))
     \<or> (version p = ''ipv6'' \<and> v' = (fst v, snd v @ [p]))"
  by (auto simp: append_version_def)

lemma add_package_keys:
  "add_package p d = Inr d' \<Longrightarrow>
     map fst d' = (if country p \<in> fst ` set d then map fst d else map fst d @ [country p])"
proof (induction d arbitrary: d')
  case Nil
  then show ?case by (auto split: sum.splits)
next
  case (Cons e d)
  obtain c v where e: "e = (c, v)" by (cases e)
  show ?case
  proof (cases "c = country p")
    case True
    with e Cons.prems show ?thesis by (auto split: sum.splits)
  next
    case False
    with e Cons.prems obtain r where r: "add_package p d = Inr r" "d' = (c, v) # r"
      by (auto split: sum.splits)
    from Cons.IH [OF r(1)] r(2) e False show ?thesis
      by (cases "country p \<in> fst ` set d") auto
  qed
qed

lemma add_package_map_of:
  "add_package p d = Inr d' \<Longrightarrow>
     \<exists>v'. append_version p (case map_of d (country p) of None \<Rightarrow> ([], []) | Some v \<Rightarrow> v) = Inr v'
        \<and> map_of d' = (map_of d)(country p \<mapsto> v')"
proof (induction d arbitrary: d')
  case Nil
  then show ?case by (auto split: sum.splits simp: fun_eq_iff)
next
  case (Cons e d)
  obtain c v where e: "e = (c, v)" by (cases e)
  show ?case
  proof (cases "c = country p")
    case True
    with e Cons.prems show ?thesis by (auto split: sum.splits simp: fun_eq_iff)
  next
    case False
    with e Cons.prems obtain r where r: "add_package p d = Inr r" "d' = (c, v) # r"
      by (auto split: sum.splits)
    from Cons.IH [OF r(1)] r(2) e False show ?thesis
      by (auto simp: fun_eq_iff)
  qed
qed

lemma add_package_lists:
  assumes "add_package p d = Inr d'"
  shows "ipv4_of d' c = ipv4_of d c @ (if country p = c \<and> version p = ''ipv4'' then [p] else [])"
    and "ipv6_of d' c = ipv6_of d c @ (if country p = c \<and> version p = ''ipv6'' then [p] else [])"
    and "version p = ''ipv4'' \<or> version p = ''ipv6''"
proof -
  from add_package_map_of [OF assms] obtain v' where
    v': "append_version p (case map_of d (country p) of None \<Rightarrow> ([], []) | Some v \<Rightarrow> v) = Inr v'"
    and m: "map_of d' = (map_of d)(country p \<mapsto> v')"
    by blast
  from v' show "version p = ''ipv4'' \<or> version p = ''ipv6''"
    by (auto simp: append_version_Inr)
  from v' m
  show "ipv4_of d' c = ipv4_of d c @ (if country p = c \<and> version p = ''ipv4'' then [p] else [])"
    by (cases "map_of d (country p)") (auto simp: ipv4_of_def append_version_Inr)
  from v' m
  show "ipv6_of d' c = ipv6_of d c @ (if country p = c \<and> version p = ''ipv6'' then [p] else [])"
    by (cases "map_of d (country p)") (auto simp: ipv6_of_def append_version_Inr)
qed

lemma group_packages_lists:
  assumes "group_packages xs d = Inr d'"
  shows "ipv4_of d' c = ipv4_of d c @ filter (\<lambda>p. country p = c \<and> version p = ''ipv4'') xs"
    and "ipv6_of d' c = ipv6_of d c @ filter (\<lambda>p. country p = c \<and> version p = ''ipv6'') xs"
  using assms
proof (induction xs arbitrary: d)
  case Nil
  { case 1 then show ?case by simp }
  { case 2 then show ?case by simp }
next
  case (Cons x xs)
  { case 1
    then obtain d1 where d1: "add_package x d = Inr d1" "group_packages xs d1 = Inr d'"
      by (auto split: sum.splits)
    from Cons.IH(1) [OF d1(2)] add_package_lists(1) [OF d1(1), of c] show ?case by simp }
  { case 2
    then obtain d1 where d1: "add_package x d = Inr d1" "group_packages xs d1 = Inr d'"
      by (auto split: sum.splits)
    from Cons.IH(2) [OF d1(2)] add_package_lists(2) [OF d1(1), of c] show ?case by simp }
qed

lemma group_packages_distinct:
  "group_packages xs d = Inr d' \<Longrightarrow> distinct (map fst d) \<Longrightarrow> distinct (map fst d')"
proof (induction xs arbitrary: d)
  case Nil
  then show ?case by simp
next
  case (Cons x xs)
  then obtain d1 where d1: "add_package x d = Inr d1" "group_packages xs d1 = Inr d'"
    by (auto split: sum.splits)
  from add_package_keys [OF d1(1)] Cons.prems(2) have "distinct (map fst d1)"
    by (simp split: if_splits)
  with Cons.IH [OF d1(2)] show ?case .
qed

lemma group_packages_keys:
  "group_packages xs d = Inr d' \<Longrightarrow> fst ` set d' = fst ` set d \<union> country ` set xs"
proof (induction xs arbitrary: d)
  case Nil
  then show ?case by simp
next
  case (Cons x xs)
  then obtain d1 where d1: "add_package x d = Inr d1" "group_packages xs d1 = Inr d'"
    by (auto split: sum.splits)
  have "set (map fst d1) = insert (country x) (set (map fst d))"
    using add_package_keys [OF d1(1)] by (auto split: if_splits)
  then have "fst ` set d1 = insert (country x) (fst ` set d)"
    by simp
  with Cons.IH [OF d1(2)] show ?case by auto
qed

lemma group_packages_versions:
  "group_packages xs d = Inr d' \<Longrightarrow> list_all (\<lambda>p. version p = ''ipv4'' \<or> version p = ''ipv6'') xs"
proof (induction xs arbitrary: d)
  case Nil
  then show ?case by simp
next
  case (Cons x xs)
  then obtain d1 where d1: "add_package x d = Inr d1" "group_packages xs d1 = Inr d'"
    by (auto split: sum.splits)
  from add_package_lists(3) [OF d1(1)] Cons.IH [OF d1(2)] show ?case by simp
qed

lemma group_packages_total:
  "list_all (\<lambda>p. version p = ''ipv4'' \<or> version p = ''ipv6'') xs \<Longrightarrow> \<exists>d'. group_packages xs d = Inr d'"
proof (induction xs arbitrary: d)
  case Nil
  show ?case by simp
next
  case (Cons x xs)
  have "\<exists>d1. add_package x d = Inr d1"
  proof (induction d)
    case Nil
    from Cons.prems show ?case by (auto simp: append_version_def)
  next
    case (Cons e d)
    with \<open>list_all _ (x # xs)\<close> show ?case
      by (cases e) (auto simp: append_version_def)
  qed
  then obtain d1 where "add_package x d = Inr d1" ..
  with Cons.IH [of d1] Cons.prems show ?case by simp
qed

lemma group_packages_entry:
  assumes "group_packages xs [] = Inr d" and "(c, v) \<in> set d"
  shows "fst v = filter (\<lambda>p. country p = c \<and> version p = ''ipv4'') xs"
    and "snd v = filter (\<lambda>p. country p = c \<and> version p = ''ipv6'') xs"
proof -
  from group_packages_distinct [OF assms(1)] have "distinct (map fst d)" by simp
  with assms(2) have m: "map_of d c = Some v" by simp
  from group_packages_lists(1) [OF assms(1), of c] m
  show "fst v = filter (\<lambda>p. country p = c \<and> version p = ''ipv4'') xs"
    by (simp add: ipv4_of_def)
  from group_packages_lists(2) [OF assms(1), of c] m
  show "snd v = filter (\<lambda>p. country p = c \<and> version p = ''ipv6'') xs"
    by (simp add: ipv6_of_def)
qed

subsection \<open>Writing files\<close>

lemma write_files_written: "x \<in> set (fst (write_files open_error xs)) \<Longrightarrow> x \<in> set xs"
proof (induction xs)
  case Nil
  then show ?case by simp
next
  case (Cons a xs)
  obtain path c where a: "a = (path, c)" by (cases a)
  with Cons show ?case by (cases "open_error path") auto
qed

lemma write_files_all_open:
  "list_all (\<lambda>x. open_error (fst x) = None) xs \<Longrightarrow> write_files open_error xs = (xs, None)"
  by (induction xs) auto

lemma in_turn_two:
  "in_turn [a, b] = (case snd a of Some e \<Rightarrow> a | None \<Rightarrow> (fst a @ fst b, snd b))"
  by (cases "snd a"; cases "snd b") (simp_all add: prod_eq_iff)

lemma write_files_append:
  "write_files open_error (xs @ ys) = in_turn [write_files open_error xs, write_files open_error ys]"
proof (induction xs)
  case Nil
  show ?case by (simp add: in_turn_two del: in_turn.simps)
next
  case (Cons a xs)
  obtain path c where a: "a = (path, c)" by (cases a)
  show ?case
  proof (cases "open_error path")
    case (Some e)
    with a show ?thesis by (simp add: in_turn_two del: in_turn.simps)
  next
    case None
    with a Cons show ?thesis
      by (cases "snd (write_files open_error xs)") (simp_all add: in_turn_two del: in_turn.simps)
  qed
qed

lemma in_turn_written:
  "x \<in> set (fst (in_turn steps)) \<Longrightarrow> \<exists>step \<in> set steps. x \<in> set (fst step)"
proof (induction steps)
  case Nil
  then show ?case by simp
next
  case (Cons step steps)
  then show ?case by (cases "snd step") auto
qed

lemma in_turn_write_files:
  "in_turn (map (\<lambda>x. write_files open_error (g x)) xs) = write_files open_error (concat (map g xs))"
proof (induction xs)
  case Nil
  show ?case by simp
next
  case (Cons x xs)
  let ?A = "write_files open_error (g x)"
  let ?W = "write_files open_error (concat (map g xs))"
  have "write_files open_error (concat (map g (x # xs))) = in_turn [?A, ?W]"
    by (simp add: write_files_append del: in_turn.simps)
  moreover have "in_turn (map (\<lambda>x. write_files open_error (g x)) (x # xs))
      = (case snd ?A of Some e \<Rightarrow> ?A | None \<Rightarrow> (fst ?A @ fst ?W, snd ?W))"
    using Cons by (simp split: option.split)
  moreover have "in_turn [?A, ?W] = (case snd ?A of Some e \<Rightarrow> ?A | None \<Rightarrow> (fst ?A @ fst ?W, snd ?W))"
    by (rule in_turn_two)
  ultimately show ?case by simp
qed

lemma for_each_written:
  "x \<in> set (fst (for_each body xs)) \<Longrightarrow> \<exists>item \<in> set xs. x \<in> set (fst (body item))"
  unfolding for_each_def by (drule in_turn_written) auto

lemma for_each_write_files:
  assumes "\<And>x. x \<in> set xs \<Longrightarrow> body x = write_files open_error (g x)"
  shows "for_each body xs = write_files open_error (concat (map g xs))"
proof -
  from assms have "map body xs = map (\<lambda>x. write_files open_error (g x)) xs"
    by simp
  then show ?thesis
    by (simp only: for_each_def in_turn_write_files)
qed

subsection \<open>The canonical order\<close>

lemma ip_sort_key_le:
  assumes "has_family a" and "has_family b"
  shows "ip_sort_key v4 v6 a \<le> ip_sort_key v4 v6 b \<longleftrightarrow> canonical_le v4 v6 a b"
  using assms
  by (auto simp: canonical_le_def address_value_def family_rank_def has_family_def
      ip_sort_key_def Let_def)

lemma sort_ip_data_sorted:
  assumes "list_all has_family xs"
  shows "sorted_wrt (canonical_le v4 v6) (sort_ip_data v4 v6 xs)"
proof -
  let ?ys = "sort_key (ip_sort_key v4 v6) xs"
  have "sorted (map (ip_sort_key v4 v6) ?ys)"
    by (rule sorted_sort_key)
  then have "sorted_wrt (\<lambda>a b. ip_sort_key v4 v6 a \<le> ip_sort_key v4 v6 b) ?ys"
    by (simp add: sorted_map)
  moreover have "canonical_le v4 v6 a b"
    if "a \<in> set ?ys" "b \<in> set ?ys" "ip_sort_key v4 v6 a \<le> ip_sort_key v4 v6 b" for a b
  proof -
    from that(1,2) assms have "has_family a" "has_family b"
      by (simp_all add: list_all_iff)
    with that(3) show ?thesis by (simp add: ip_sort_key_le)
  qed
  ultimately have "sorted_wrt (canonical_le v4 v6) ?ys"
    by (rule sorted_wrt_mono_rel [rotated])
  then show ?thesis by (simp add: sort_ip_data_def)
qed

lemma those_map_Some:
  "those (map f xs) = Some ks \<Longrightarrow> ks = map (\<lambda>x. the (f x)) xs \<and> list_all (\<lambda>x. f x \<noteq> None) xs"
  by (induction xs arbitrary: ks) (auto split: option.splits)

lemma those_map_None:
  "those (map f xs) = None \<Longrightarrow> \<not> list_all (\<lambda>x. f x \<noteq> None) xs"
  by (induction xs) (auto split: option.splits)

lemma insort_key_decorated:
  "insort_key fst (g x, x) (map (\<lambda>y. (g y, y)) ys) = map (\<lambda>y. (g y, y)) (insort_key g x ys)"
  by (induction ys) simp_all

lemma sort_key_decorated:
  "map snd (sort_key fst (zip (map g xs) xs)) = sort_key g xs"
proof -
  have z: "zip (map g xs) xs = map (\<lambda>y. (g y, y)) xs"
    by (induction xs) simp_all
  have "sort_key fst (map (\<lambda>y. (g y, y)) xs) = map (\<lambda>y. (g y, y)) (sort_key g xs)"
    by (induction xs) (simp_all add: insort_key_decorated)
  with z show ?thesis
    by (simp add: comp_def)
qed

lemma sorted_by_asn_Inr:
  assumes "sorted_by_asn entries = Inr r"
  shows "r = sort_key (\<lambda>x. the (py_int (asn x))) entries"
    and "list_all (\<lambda>x. py_int (asn x) \<noteq> None) entries"
proof -
  from assms obtain ks where ks: "those (map (\<lambda>x. py_int (asn x)) entries) = Some ks"
    and r: "r = map snd (sort_key fst (zip ks entries))"
    by (auto simp: sorted_by_asn_def split: option.splits)
  from those_map_Some [OF ks] r
  show "r = sort_key (\<lambda>x. the (py_int (asn x))) entries"
    by (simp add: sort_key_decorated)
  from those_map_Some [OF ks]
  show "list_all (\<lambda>x. py_int (asn x) \<noteq> None) entries"
    by simp
qed

lemma sorted_by_asn_Inl:
  "sorted_by_asn entries = Inl e \<Longrightarrow> e = ValueError \<and> \<not> list_all (\<lambda>x. py_int (asn x) \<noteq> None) entries"
  by (auto simp: sorted_by_asn_def split: option.splits dest: those_map_None)

lemma sorted_by_asn_mset: "sorted_by_asn entries = Inr r \<Longrightarrow> mset r = mset entries"
  using sorted_by_asn_Inr(1) [of entries r] by simp

lemma sorted_by_asn_sorted:
  assumes "sorted_by_asn entries = Inr r"
  shows "sorted_wrt asn_le r"
proof -
  let ?g = "\<lambda>x. the (py_int (asn x))"
  from sorted_by_asn_Inr [OF assms] have r: "r = sort_key ?g entries"
    and ok: "list_all (\<lambda>x. py_int (asn x) \<noteq> None) entries"
    by simp_all
  have "sorted (map ?g r)"
    unfolding r by (rule sorted_sort_key)
  then have s: "sorted_wrt (\<lambda>a b. ?g a \<le> ?g b) r"
    by (simp add: sorted_map)
  have "asn_le a b" if "a \<in> set r" "b \<in> set r" "?g a \<le> ?g b" for a b
  proof -
    from that(1,2) ok obtain m n where "py_int (asn a) = Some m" "py_int (asn b) = Some n"
      unfolding r list_all_iff set_sort by blast
    with that(3) show ?thesis by (simp add: asn_le_def)
  qed
  with s show ?thesis
    by (rule sorted_wrt_mono_rel [rotated])
qed

lemma asn_files_content:
  "(path, c) \<in> set (asn_files dir name es) \<Longrightarrow> c = Rows es \<or> c = Lines (map asn es)"
  by (auto simp: asn_files_def)

lemma sorted_asn_files_written:
  assumes "(path, c) \<in> set (fst (case sorted_by_asn es of
                Inl e \<Rightarrow> ([], Some e)
              | Inr sorted_entries \<Rightarrow> write_files open_error (asn_files dir name sorted_entries)))"
  shows "\<exists>rs. sorted_wrt asn_le rs \<and> (c = Rows rs \<or> c = Lines (map asn rs))"
proof (cases "sorted_by_asn es")
  case (Inl e)
  with assms show ?thesis by simp
next
  case (Inr r)
  with assms have "(path, c) \<in> set (asn_files dir name r)"
    by (auto dest: write_files_written)
  from asn_files_content [OF this] sorted_by_asn_sorted [OF Inr] show ?thesis
    by blast
qed

lemma export_global_asn_data_sorted:
  assumes "(path, c) \<in> set (fst (export_global_asn_data open_error all_asn_data))"
  shows "\<exists>rs. sorted_wrt asn_le rs \<and> (c = Rows rs \<or> c = Lines (map asn rs))"
  using assms unfolding export_global_asn_data_def by (rule sorted_asn_files_written)

lemma export_by_country_sorted:
  assumes "(path, c) \<in> set (fst (export_by_country open_error all_asn_data))"
  shows "\<exists>rs. sorted_wrt asn_le rs \<and> (c = Rows rs \<or> c = Lines (map asn rs))"
proof -
  from for_each_written [OF assms [unfolded export_by_country_def]]
  obtain k es where m: "(path, c) \<in> set (fst (if k \<noteq> [] \<and> k \<noteq> ''*'' then
           (case sorted_by_asn es of
              Inl e \<Rightarrow> ([], Some e)
            | Inr sorted_entries \<Rightarrow>
                write_files open_error (asn_files ''BY_COUNTRY/'' k sorted_entries))
         else ([], None)))"
    by auto
  then have "(path, c) \<in> set (fst (case sorted_by_asn es of
              Inl e \<Rightarrow> ([], Some e)
            | Inr sorted_entries \<Rightarrow>
                write_files open_error (asn_files ''BY_COUNTRY/'' k sorted_entries)))"
    by (simp split: if_splits)
  then show ?thesis by (rule sorted_asn_files_written)
qed

lemma export_by_registry_sorted:
  assumes "(path, c) \<in> set (fst (export_by_registry open_error all_asn_data))"
  shows "\<exists>rs. sorted_wrt asn_le rs \<and> (c = Rows rs \<or> c = Lines (map asn rs))"
proof -
  from for_each_written [OF assms [unfolded export_by_registry_def]]
  obtain k es where "(path, c) \<in> set (fst (case sorted_by_asn es of
              Inl e \<Rightarrow> ([], Some e)
            | Inr sorted_entries \<Rightarrow>
                write_files open_error (asn_files ''BY_REGISTRY/'' k sorted_entries)))"
    by auto
  then show ?thesis by (rule sorted_asn_files_written)
qed

lemma export_summary_paths:
  "(path, c) \<in> set (fst (export_summary open_error xs))
   \<Longrightarrow> path \<in> set [''ASN/JSON/summary.json'', ''ASN/TXT/summary.txt'']"
proof -
  assume "(path, c) \<in> set (fst (export_summary open_error xs))"
  then have "(path, c) \<in> set
           [(''ASN/JSON/summary.json'',
               Summary (length xs) (sort_key (\<lambda>x. - int (snd x)) (count_by asn_country xs))
                 (sort (count_by registry xs)) (sort (count_by status xs))
                 (length (count_by asn_country xs)) (length (count_by registry xs))),
            (''ASN/TXT/summary.txt'',
               SummaryText (length xs) (length (count_by asn_country xs))
                 (length (count_by registry xs)) (sort (count_by registry xs))
                 (take 10 (sort_key (\<lambda>x. - int (snd x)) (count_by asn_country xs))))]"
    unfolding export_summary_def Let_def by (rule write_files_written)
  then show ?thesis by auto
qed

lemma build_asn_main_sorted:
  assumes "build_asn_main open_error responses = Exported written err" and "(path, c) \<in> set written"
  shows "path \<in> set [''ASN/JSON/summary.json'', ''ASN/TXT/summary.txt'']
         \<or> (\<exists>rs. sorted_wrt asn_le rs \<and> (c = Rows rs \<or> c = Lines (map asn rs)))"
proof -
  define xs where "xs = concat (map (\<lambda>(r, response). download_and_process_asn r response) responses)"
  from assms(1) have "written = fst (in_turn
                  [export_global_asn_data open_error xs,
                   export_by_country open_error xs,
                   export_by_registry open_error xs,
                   export_summary open_error xs])"
    by (auto simp: build_asn_main_def Let_def xs_def split: if_splits)
  with assms(2) have "(path, c) \<in> set (fst (in_turn
                  [export_global_asn_data open_error xs,
                   export_by_country open_error xs,
                   export_by_registry open_error xs,
                   export_summary open_error xs]))"
    by simp
  from in_turn_written [OF this]
  consider "(path, c) \<in> set (fst (export_global_asn_data open_error xs))"
    | "(path, c) \<in> set (fst (export_by_country open_error xs))"
    | "(path, c) \<in> set (fst (export_by_registry open_error xs))"
    | "(path, c) \<in> set (fst (export_summary open_error xs))"
    by auto
  then show ?thesis
  proof cases
    case 1 then show ?thesis by (auto dest: export_global_asn_data_sorted)
  next
    case 2 then show ?thesis by (auto dest: export_by_country_sorted)
  next
    case 3 then show ?thesis by (auto dest: export_by_registry_sorted)
  next
    case 4 from export_summary_paths [OF this] show ?thesis by simp
  qed
qed

subsection \<open>The run of \<open>build.py\<close>\<close>

lemma process_line_version:
  "process_line up l = Inr (Some p) \<Longrightarrow> has_family p"
  by (auto simp: process_line_def has_family_def Let_def split: if_splits option.splits sum.splits)

lemma process_lines_versions:
  "process_lines up ls = Inr ps \<Longrightarrow> list_all has_family ps"
proof (induction ls arbitrary: ps)
  case Nil
  then show ?case by simp
next
  case (Cons l ls)
  then obtain r qs where r: "process_line up l = Inr r" "process_lines up ls = Inr qs"
    "ps = (case r of None \<Rightarrow> qs | Some p \<Rightarrow> p # qs)"
    by (auto split: sum.splits)
  from Cons.IH [OF r(2)] r(1,3) process_line_version [of up l] show ?case
    by (cases r) auto
qed

lemma region_records_versions: "list_all has_family (region_records up files region)"
  by (auto simp: region_records_def process_region_data_def
      split: sum.splits option.splits dest: process_lines_versions)

lemma all_ip_data_versions:
  "list_all has_family (concat (map (region_records up files) regions))"
  using region_records_versions [of up files]
  by (auto simp: list_all_iff)

lemma sorted_data_versions:
  "list_all has_family (sort_ip_data v4 v6 (concat (map (region_records up files) regions)))"
  using all_ip_data_versions [of up files regions]
  by (simp add: sort_ip_data_def list_all_iff)

lemma country_files_content:
  "(path, c) \<in> set (country_files k v pk) \<Longrightarrow> c = Rows pk \<or> c = Lines (map cidr pk)"
  by (auto simp: country_files_def split: if_splits)

lemma export_country_data_written:
  assumes "(path, c) \<in> set (fst (export_country_data open_error xs))"
  shows "\<exists>P. c = Rows (filter P xs) \<or> c = Lines (map cidr (filter P xs))"
proof (cases "group_packages xs []")
  case (Inl e)
  with assms show ?thesis by (simp add: export_country_data_def)
next
  case (Inr d)
  with assms have "(path, c) \<in> set (concat (map (\<lambda>(c, versions).
                       country_files c ''ipv4'' (fst versions)
                       @ country_files c ''ipv6'' (snd versions)) d))"
    by (auto simp: export_country_data_def dest: write_files_written)
  then obtain k v where kv: "(k, v) \<in> set d"
    and m: "(path, c) \<in> set (country_files k ''ipv4'' (fst v))
            \<or> (path, c) \<in> set (country_files k ''ipv6'' (snd v))"
    by auto
  from m show ?thesis
  proof
    assume "(path, c) \<in> set (country_files k ''ipv4'' (fst v))"
    from country_files_content [OF this] group_packages_entry(1) [OF Inr kv]
    have "c = Rows (filter (\<lambda>p. country p = k \<and> version p = ''ipv4'') xs)
          \<or> c = Lines (map cidr (filter (\<lambda>p. country p = k \<and> version p = ''ipv4'') xs))"
      by simp
    then show ?thesis by (rule exI [of _ "\<lambda>p. country p = k \<and> version p = ''ipv4''"])
  next
    assume "(path, c) \<in> set (country_files k ''ipv6'' (snd v))"
    from country_files_content [OF this] group_packages_entry(2) [OF Inr kv]
    have "c = Rows (filter (\<lambda>p. country p = k \<and> version p = ''ipv6'') xs)
          \<or> c = Lines (map cidr (filter (\<lambda>p. country p = k \<and> version p = ''ipv6'') xs))"
      by simp
    then show ?thesis by (rule exI [of _ "\<lambda>p. country p = k \<and> version p = ''ipv6''"])
  qed
qed

lemma export_countries_list_paths:
  assumes "(path, c) \<in> set (fst (export_countries_list open_error xs))"
  shows "path \<in> set [''CSV/countries.csv'', ''JSON/countries.json'', ''TXT/countries.txt'']"
proof -
  from assms have "(path, c) \<in> set
      [(''CSV/countries.csv'', Lines (sort (remdups (map country xs)))),
       (''JSON/countries.json'', Lines (sort (remdups (map country xs)))),
       (''TXT/countries.txt'', Lines (sort (remdups (map country xs))))]"
    unfolding export_countries_list_def Let_def by (rule write_files_written)
  then show ?thesis by auto
qed

lemma export_global_data_written:
  assumes "(path, c) \<in> set (fst (export_global_data open_error xs))"
  shows "c = Rows xs"
proof -
  from assms have "(path, c) \<in> set
      [(''CSV/global.csv'', Rows xs), (''JSON/global.json'', Rows xs),
       (''JSON/global_compressed.json'', Rows xs)]"
    unfolding export_global_data_def by (rule write_files_written)
  then show ?thesis by auto
qed

lemma export_version_specific_data_written:
  assumes "(path, c) \<in> set (fst (export_version_specific_data open_error xs v))"
  shows "c = Rows (filter (\<lambda>pkg. version pkg = v) xs)"
proof -
  from assms have "(path, c) \<in> set
      [(''CSV/global_'' @ v @ ''.csv'', Rows (filter (\<lambda>pkg. version pkg = v) xs)),
       (''JSON/global_'' @ v @ ''.json'', Rows (filter (\<lambda>pkg. version pkg = v) xs)),
       (''JSON/global_'' @ v @ ''_compressed.json'', Rows (filter (\<lambda>pkg. version pkg = v) xs))]"
    unfolding export_version_specific_data_def Let_def by (rule write_files_written)
  then show ?thesis by auto
qed

lemma build_main_written:
  assumes "(path, c) \<in> set (fst (build_main up v4 v6 open_error files))"
  shows "path \<in> set [''CSV/countries.csv'', ''JSON/countries.json'', ''TXT/countries.txt'']
     \<or> (\<exists>P. c = Rows (filter P (sort_ip_data v4 v6
                    (concat (map (region_records up files) REGIONS_DELEGATED))))
            \<or> c = Lines (map cidr (filter P (sort_ip_data v4 v6
                    (concat (map (region_records up files) REGIONS_DELEGATED))))))"
proof -
  define xs where "xs = sort_ip_data v4 v6 (concat (map (region_records up files) REGIONS_DELEGATED))"
  from assms have "(path, c) \<in> set (fst (in_turn
           [export_countries_list open_error xs,
            export_global_data open_error xs,
            export_version_specific_data open_error xs ''ipv4'',
            export_version_specific_data open_error xs ''ipv6'',
            export_country_data open_error xs]))"
    by (simp add: build_main_def Let_def xs_def)
  from in_turn_written [OF this]
  consider "(path, c) \<in> set (fst (export_countries_list open_error xs))"
    | "(path, c) \<in> set (fst (export_global_data open_error xs))"
    | v where "(path, c) \<in> set (fst (export_version_specific_data open_error xs v))"
    | "(path, c) \<in> set (fst (export_country_data open_error xs))"
    by auto
  then have "path \<in> set [''CSV/countries.csv'', ''JSON/countries.json'', ''TXT/countries.txt'']
     \<or> (\<exists>P. c = Rows (filter P xs) \<or> c = Lines (map cidr (filter P xs)))"
  proof cases
    case 1
    from export_countries_list_paths [OF this] show ?thesis by blast
  next
    case 2
    from export_global_data_written [OF this] have "c = Rows (filter (\<lambda>_. True) xs)"
      by simp
    then have "\<exists>P. c = Rows (filter P xs) \<or> c = Lines (map cidr (filter P xs))"
      by (intro exI [of _ "\<lambda>_. True"] disjI1)
    then show ?thesis by (rule disjI2)
  next
    case 3
    from export_version_specific_data_written [OF this]
    have "\<exists>P. c = Rows (filter P xs) \<or> c = Lines (map cidr (filter P xs))"
      by (intro exI [of _ "\<lambda>pkg. version pkg = v"] disjI1)
    then show ?thesis by (rule disjI2)
  next
    case 4
    from export_country_data_written [OF this] show ?thesis by (rule disjI2)
  qed
  then show ?thesis by (simp only: xs_def)
qed

lemma build_main_sorted:
  assumes "(path, c) \<in> set (fst (build_main up v4 v6 open_error files))"
  shows "path \<in> set [''CSV/countries.csv'', ''JSON/countries.json'', ''TXT/countries.txt'']
     \<or> (\<exists>rs. sorted_wrt (canonical_le v4 v6) rs
            \<and> (\<exists>P. rs = filter P (sort_ip_data v4 v6
                    (concat (map (region_records up files) REGIONS_DELEGATED))))
            \<and> (c = Rows rs \<or> c = Lines (map cidr rs)))"
proof -
  let ?xs = "sort_ip_data v4 v6 (concat (map (region_records up files) REGIONS_DELEGATED))"
  have s: "sorted_wrt (canonical_le v4 v6) (filter P ?xs)" for P
    using sort_ip_data_sorted [OF all_ip_data_versions, of v4 v6 up files REGIONS_DELEGATED]
    by (rule sorted_wrt_filter)
  from build_main_written [OF assms] show ?thesis
  proof
    assume "path \<in> set [''CSV/countries.csv'', ''JSON/countries.json'', ''TXT/countries.txt'']"
    then show ?thesis by (rule disjI1)
  next
    assume "\<exists>P. c = Rows (filter P ?xs) \<or> c = Lines (map cidr (filter P ?xs))"
    then obtain P where c: "c = Rows (filter P ?xs) \<or> c = Lines (map cidr (filter P ?xs))" ..
    have "\<exists>Q. filter P ?xs = filter Q ?xs"
      by (rule exI [of _ P]) (rule refl)
    with s [of P] c
    have "\<exists>rs. sorted_wrt (canonical_le v4 v6) rs \<and> (\<exists>P. rs = filter P ?xs)
            \<and> (c = Rows rs \<or> c = Lines (map cidr rs))"
      by (intro exI [of _ "filter P ?xs"] conjI)
    then show ?thesis by (rule disjI2)
  qed
qed

text \<open>
  C2. On records of the two families the canonical sort returns its input reordered with
  non-decreasing keys: by country code, then by family with IPv4 before IPv6, then by the
  integer of the address. However far the run of \<open>build.py\<close> gets, every file it writes
  other than the three countries files holds a selection of the sorted records of the run,
  in the order of the sort, so with non-decreasing keys, as rows or as the lines of their
  CIDR listing. The sort of ASN entries, when every ASN reads as an integer, returns its
  input reordered in non-decreasing order of that integer, and every file the run of
  \<open>build-asn.py\<close> writes other than the two summary files holds entries in that order,
  as rows or as the lines of their ASN listing.
\<close>

theorem canonical_order:
  "(list_all has_family ip_data
      \<longrightarrow> sorted_wrt (canonical_le v4 v6) (sort_ip_data v4 v6 ip_data))
   \<and> mset (sort_ip_data v4 v6 ip_data) = mset ip_data
   \<and> list_all (\<lambda>(path, c).
         path \<in> set [''CSV/countries.csv'', ''JSON/countries.json'', ''TXT/countries.txt'']
         \<or> (\<exists>rs. sorted_wrt (canonical_le v4 v6) rs
                \<and> (\<exists>P. rs = filter P (sort_ip_data v4 v6
                        (concat (map (region_records log2_rounds_up files) REGIONS_DELEGATED))))
                \<and> (c = Rows rs \<or> c = Lines (map cidr rs))))
       (fst (build_main log2_rounds_up v4 v6 open_error files))
   \<and> (sorted_by_asn entries = Inr sorted_entries
      \<longrightarrow> sorted_wrt asn_le sorted_entries \<and> mset sorted_entries = mset entries)
   \<and> (build_asn_main asn_open_error responses = Exported written err
      \<longrightarrow> list_all (\<lambda>(path, c).
            path \<in> set [''ASN/JSON/summary.json'', ''ASN/TXT/summary.txt'']
            \<or> (\<exists>rs. sorted_wrt asn_le rs \<and> (c = Rows rs \<or> c = Lines (map asn rs))))
          written)"
proof -
  have 1: "list_all has_family ip_data
      \<longrightarrow> sorted_wrt (canonical_le v4 v6) (sort_ip_data v4 v6 ip_data)"
    by (simp add: sort_ip_data_sorted)
  have 2: "mset (sort_ip_data v4 v6 ip_data) = mset ip_data"
    by (simp add: sort_ip_data_def)
  have 3: "list_all (\<lambda>(path, c).
         path \<in> set [''CSV/countries.csv'', ''JSON/countries.json'', ''TXT/countries.txt'']
         \<or> (\<exists>rs. sorted_wrt (canonical_le v4 v6) rs
                \<and> (\<exists>P. rs = filter P (sort_ip_data v4 v6
                        (concat (map (region_records log2_rounds_up files) REGIONS_DELEGATED))))
                \<and> (c = Rows rs \<or> c = Lines (map cidr rs))))
       (fst (build_main log2_rounds_up v4 v6 open_error files))"
    unfolding list_all_iff using build_main_sorted by fast
  have 4: "list_all (\<lambda>(path, c).
            path \<in> set [''ASN/JSON/summary.json'', ''ASN/TXT/summary.txt'']
            \<or> (\<exists>rs. sorted_wrt asn_le rs \<and> (c = Rows rs \<or> c = Lines (map asn rs))))
          written"
    if "build_asn_main asn_open_error responses = Exported written err"
    unfolding list_all_iff using build_asn_main_sorted [OF that] by fast
  have 5: "sorted_wrt asn_le sorted_entries \<and> mset sorted_entries = mset entries"
    if "sorted_by_asn entries = Inr sorted_entries"
    using sorted_by_asn_sorted [OF that] sorted_by_asn_mset [OF that] by simp
  from 1 2 3 4 5 show ?thesis by blast
qed

theorem canonical_order_witness:
  "list_all has_family
     [\<lparr>country = ''JP'', ip = ''10.0.0.0'', prefix_length = ''24'', version = ''ipv4''\<rparr>,
      \<lparr>country = ''JP'', ip = ''2001:db8::'', prefix_length = ''32'', version = ''ipv6''\<rparr>,
      \<lparr>country = ''JP'', ip = ''9.0.0.0'', prefix_length = ''24'', version = ''ipv4''\<rparr>,
      \<lparr>country = ''DE'', ip = ''80.0.0.0'', prefix_length = ''16'', version = ''ipv4''\<rparr>]
   \<and> sort_ip_data dotted_quad (\<lambda>a. None)
     [\<lparr>country = ''JP'', ip = ''10.0.0.0'', prefix_length = ''24'', version = ''ipv4''\<rparr>,
      \<lparr>country = ''JP'', ip = ''2001:db8::'', prefix_length = ''32'', version = ''ipv6''\<rparr>,
      \<lparr>country = ''JP'', ip = ''9.0.0.0'', prefix_length = ''24'', version = ''ipv4''\<rparr>,
      \<lparr>country = ''DE'', ip = ''80.0.0.0'', prefix_length = ''16'', version = ''ipv4''\<rparr>]
   = [\<lparr>country = ''DE'', ip = ''80.0.0.0'', prefix_length = ''16'', version = ''ipv4''\<rparr>,
      \<lparr>country = ''JP'', ip = ''9.0.0.0'', prefix_length = ''24'', version = ''ipv4''\<rparr>,
      \<lparr>country = ''JP'', ip = ''10.0.0.0'', prefix_length = ''24'', version = ''ipv4''\<rparr>,
      \<lparr>country = ''JP'', ip = ''2001:db8::'', prefix_length = ''32'', version = ''ipv6''\<rparr>]
   \<and> sorted_wrt (canonical_le dotted_quad (\<lambda>a. None))
     [\<lparr>country = ''DE'', ip = ''80.0.0.0'', prefix_length = ''16'', version = ''ipv4''\<rparr>,
      \<lparr>country = ''JP'', ip = ''9.0.0.0'', prefix_length = ''24'', version = ''ipv4''\<rparr>,
      \<lparr>country = ''JP'', ip = ''10.0.0.0'', prefix_length = ''24'', version = ''ipv4''\<rparr>,
      \<lparr>country = ''JP'', ip = ''2001:db8::'', prefix_length = ''32'', version = ''ipv6''\<rparr>]
   \<and> sorted_by_asn
     [\<lparr>registry = ''apnic'', asn_country = ''JP'', asn = ''173'', asn_value = ''1'',
        date = ''20020801'', status = ''allocated''\<rparr>,
      \<lparr>registry = ''apnic'', asn_country = ''AU'', asn = ''38'', asn_value = ''1'',
        date = ''19930101'', status = ''assigned''\<rparr>]
     = Inr [\<lparr>registry = ''apnic'', asn_country = ''AU'', asn = ''38'', asn_value = ''1'',
              date = ''19930101'', status = ''assigned''\<rparr>,
            \<lparr>registry = ''apnic'', asn_country = ''JP'', asn = ''173'', asn_value = ''1'',
              date = ''20020801'', status = ''allocated''\<rparr>]
   \<and> sorted_wrt asn_le
     [\<lparr>registry = ''apnic'', asn_country = ''AU'', asn = ''38'', asn_value = ''1'',
        date = ''19930101'', status = ''assigned''\<rparr>,
      \<lparr>registry = ''apnic'', asn_country = ''JP'', asn = ''173'', asn_value = ''1'',
        date = ''20020801'', status = ''allocated''\<rparr>]
   \<and> (\<exists>written err.
         build_asn_main (opens_in asn_directories)
            [(''apnic'', Some (''apnic|JP|asn|173|1|20020801|allocated'' @ [LF]
                               @ ''apnic|AU|asn|38|1|19930101|assigned'')),
             (''arin'', None)] = Exported written err
          \<and> (''ASN/TXT/global_asn.txt'', Lines [''38'', ''173'']) \<in> set written
          \<and> list_all (\<lambda>(path, c).
                path \<in> set [''ASN/JSON/summary.json'', ''ASN/TXT/summary.txt'']
                \<or> (\<exists>rs. sorted_wrt asn_le rs \<and> (c = Rows rs \<or> c = Lines (map asn rs))))
              written)"
proof -
  let ?data = "[\<lparr>country = ''JP'', ip = ''10.0.0.0'', prefix_length = ''24'', version = ''ipv4''\<rparr>,
      \<lparr>country = ''JP'', ip = ''2001:db8::'', prefix_length = ''32'', version = ''ipv6''\<rparr>,
      \<lparr>country = ''JP'', ip = ''9.0.0.0'', prefix_length = ''24'', version = ''ipv4''\<rparr>,
      \<lparr>country = ''DE'', ip = ''80.0.0.0'', prefix_length = ''16'', version = ''ipv4''\<rparr>]"
  let ?R = "[(''apnic'', Some (''apnic|JP|asn|173|1|20020801|allocated'' @ [LF]
                               @ ''apnic|AU|asn|38|1|19930101|assigned'')),
             (''arin'', None)]"
  let ?jp = "\<lparr>registry = ''apnic'', asn_country = ''JP'', asn = ''173'', asn_value = ''1'',
        date = ''20020801'', status = ''allocated''\<rparr>"
  let ?au = "\<lparr>registry = ''apnic'', asn_country = ''AU'', asn = ''38'', asn_value = ''1'',
        date = ''19930101'', status = ''assigned''\<rparr>"
  have f: "list_all has_family ?data"
    by (simp add: has_family_def)
  have s: "sort_ip_data dotted_quad (\<lambda>a. None) ?data
   = [\<lparr>country = ''DE'', ip = ''80.0.0.0'', prefix_length = ''16'', version = ''ipv4''\<rparr>,
      \<lparr>country = ''JP'', ip = ''9.0.0.0'', prefix_length = ''24'', version = ''ipv4''\<rparr>,
      \<lparr>country = ''JP'', ip = ''10.0.0.0'', prefix_length = ''24'', version = ''ipv4''\<rparr>,
      \<lparr>country = ''JP'', ip = ''2001:db8::'', prefix_length = ''32'', version = ''ipv6''\<rparr>]"
    by (simp add: sort_ip_data_def ip_sort_key_def dotted_quad_def octet_def text_defs)
  have a: "sorted_by_asn [?jp, ?au] = Inr [?au, ?jp]"
    by (simp add: sorted_by_asn_def text_defs)
  have "\<exists>written err. build_asn_main (opens_in asn_directories) ?R = Exported written err
          \<and> (''ASN/TXT/global_asn.txt'', Lines [''38'', ''173'']) \<in> set written"
    by (simp add: asn_defs open_defs text_defs)
  then obtain written err where
    w: "build_asn_main (opens_in asn_directories) ?R = Exported written err"
    and g: "(''ASN/TXT/global_asn.txt'', Lines [''38'', ''173'']) \<in> set written"
    by blast
  note t = canonical_order [of ?data dotted_quad "\<lambda>a. None" "\<lambda>n. False" "\<lambda>p. None" "\<lambda>p. None"
      "[?jp, ?au]" "[?au, ?jp]" "opens_in asn_directories" ?R written err]
  from t f s have "sorted_wrt (canonical_le dotted_quad (\<lambda>a. None))
     [\<lparr>country = ''DE'', ip = ''80.0.0.0'', prefix_length = ''16'', version = ''ipv4''\<rparr>,
      \<lparr>country = ''JP'', ip = ''9.0.0.0'', prefix_length = ''24'', version = ''ipv4''\<rparr>,
      \<lparr>country = ''JP'', ip = ''10.0.0.0'', prefix_length = ''24'', version = ''ipv4''\<rparr>,
      \<lparr>country = ''JP'', ip = ''2001:db8::'', prefix_length = ''32'', version = ''ipv6''\<rparr>]"
    by simp
  moreover from t w have "list_all (\<lambda>(path, c).
                path \<in> set [''ASN/JSON/summary.json'', ''ASN/TXT/summary.txt'']
                \<or> (\<exists>rs. sorted_wrt asn_le rs \<and> (c = Rows rs \<or> c = Lines (map asn rs))))
              written"
    by blast
  moreover from t a have "sorted_wrt asn_le [?au, ?jp]"
    by blast
  ultimately show ?thesis
    using f s a w g by blast
qed

subsection \<open>Status, comments and wildcard countries\<close>

lemma process_asn_line_Some:
  assumes "process_asn_line line = Some e"
  shows "line \<noteq> []" and "\<not> startswith line ''#''" and "length (parts_of line) \<ge> 7"
    and "parts_of line ! 2 = ''asn''"
    and "parts_of line ! 6 = ''allocated'' \<or> parts_of line ! 6 = ''assigned''"
    and "e = \<lparr>registry = parts_of line ! 0, asn_country = parts_of line ! 1,
               asn = parts_of line ! 3, asn_value = parts_of line ! 4,
               date = parts_of line ! 5, status = parts_of line ! 6\<rparr>"
  using assms by (auto simp: process_asn_line_def Let_def split: if_splits)

lemma process_asn_line_comment: "startswith line ''#'' \<Longrightarrow> process_asn_line line = None"
  by (simp add: process_asn_line_def)

text \<open>
  C3. In \<open>build.py\<close> the status is not read from its field: the words are looked for
  anywhere in the line. A line whose status field is \<open>reserved\<close> appends a record when
  another field holds \<open>assigned\<close>.
\<close>

theorem status_searched_in_whole_line:
  "parts_of ''arin|US|ipv4|192.0.2.0|256|20120101|reserved|assigned'' ! 6 = ''reserved''
   \<and> process_line log2_rounds_up ''arin|US|ipv4|192.0.2.0|256|20120101|reserved|assigned''
       = Inr (Some \<lparr>country = ''US'', ip = ''192.0.2.0'', prefix_length = ''24'',
                     version = ''ipv4''\<rparr>)"
  by (simp add: ip_defs text_defs)

text \<open>
  C7. \<open>build.py\<close> does not look at the first character of a line: a line that begins
  with \<open>#\<close> appends a record when its fields pass the other tests.
\<close>

theorem comment_line_accepted:
  "startswith ''#apnic|JP|ipv4|103.0.0.0|256|20120101|allocated'' ''#''
   \<and> process_line log2_rounds_up ''#apnic|JP|ipv4|103.0.0.0|256|20120101|allocated''
       = Inr (Some \<lparr>country = ''JP'', ip = ''103.0.0.0'', prefix_length = ''24'',
                     version = ''ipv4''\<rparr>)"
  by (simp add: ip_defs text_defs)

text \<open>
  C5. A line of an IP-block file whose value is \<open>0\<close> raises \<open>ValueError\<close> out of
  \<open>process_region_data\<close>, and the region contributes no record, not even that of the
  well-formed line before it. An ASN that does not read as an integer raises
  \<open>ValueError\<close> out of the run of \<open>build-asn.py\<close>, before any file is written.
\<close>

theorem zero_value_raises:
  "process_region_data log2_rounds_up
     (Some (''apnic|JP|ipv4|103.0.0.0|256|20120101|allocated'' @ [LF]
            @ ''apnic|JP|ipv4|103.0.1.0|0|20120101|allocated'' @ [LF])) = Inl ValueError
   \<and> region_records log2_rounds_up
       (\<lambda>path. if path = ''IANASources/delegated-apnic-latest.txt''
               then Some (''apnic|JP|ipv4|103.0.0.0|256|20120101|allocated'' @ [LF]
                          @ ''apnic|JP|ipv4|103.0.1.0|0|20120101|allocated'' @ [LF])
               else None)
       ''delegated-apnic-latest'' = []
   \<and> build_asn_main open_error
       [(''apnic'', Some (''apnic|JP|asn|173|1|20020801|allocated'' @ [LF]
                         @ ''apnic|JP|asn|AS174|1|20020801|allocated''))]
     = Exported [] (Some ValueError)"
  by (simp add: ip_defs asn_defs text_defs)

lemma short_line_skipped:
  "process_region_data log2_rounds_up
     (Some (''apnic|JP|ipv4|103.0.0.0|256|20120101|allocated'' @ [LF] @ ''apnic|JP|allocated''))
   = Inr [\<lparr>country = ''JP'', ip = ''103.0.0.0'', prefix_length = ''24'', version = ''ipv4''\<rparr>]"
  by (simp add: ip_defs text_defs)

text \<open>
  C4. \<open>export_country_data\<close> of \<open>build.py\<close> skips no country: the record of a line
  with the wildcard country is written to the per-country files named \<open>*\<close>.
\<close>

theorem wildcard_country_exported:
  "\<exists>arts. build_main log2_rounds_up dotted_quad (\<lambda>a. None) (opens_in build_directories)
       (\<lambda>path. if path = ''IANASources/delegated-ripencc-latest.txt''
               then Some ''ripencc|*|ipv4|80.0.0.0|65536|20000101|allocated'' else None)
     = (arts, None)
   \<and> (''CSV/IPV4/*.csv'',
        Rows [\<lparr>country = ''*'', ip = ''80.0.0.0'', prefix_length = ''16'', version = ''ipv4''\<rparr>])
       \<in> set arts
   \<and> (''TXT/IPV4/*.txt'', Lines [''80.0.0.0/16'']) \<in> set arts"
  by (simp add: ip_defs open_defs dotted_quad_def octet_def text_defs Let_def)

text \<open>
  C9. \<open>main\<close> of \<open>build.py\<close> has no test for an empty record set: with no source
  file at all it writes the countries lists and the global files, all empty.
\<close>

theorem empty_run_writes_files:
  "build_main log2_rounds_up IPv4Address IPv6Address (opens_in build_directories) (\<lambda>path. None)
   = ([(''CSV/countries.csv'', Lines []),
       (''JSON/countries.json'', Lines []),
       (''TXT/countries.txt'', Lines []),
       (''CSV/global.csv'', Rows []),
       (''JSON/global.json'', Rows []),
       (''JSON/global_compressed.json'', Rows []),
       (''CSV/global_ipv4.csv'', Rows []),
       (''JSON/global_ipv4.json'', Rows []),
       (''JSON/global_ipv4_compressed.json'', Rows []),
       (''CSV/global_ipv6.csv'', Rows []),
       (''JSON/global_ipv6.json'', Rows []),
       (''JSON/global_ipv6_compressed.json'', Rows [])], None)"
  by (simp add: ip_defs open_defs)

lemma build_asn_main_empty:
  "concat (map (\<lambda>(r, response). download_and_process_asn r response) responses) = []
   \<Longrightarrow> build_asn_main open_error responses = Exit ''No ASN data collected. Exiting.''"
  by (simp add: build_asn_main_def)

lemma build_asn_main_Exit:
  "build_asn_main open_error responses = Exit msg
   \<Longrightarrow> concat (map (\<lambda>(r, response). download_and_process_asn r response) responses) = []"
  by (auto simp: build_asn_main_def Let_def split: if_splits)

lemma export_by_country_skips:
  assumes "(path, c) \<in> set (fst (export_by_country open_error all_asn_data))"
  shows "\<exists>k es. k \<noteq> [] \<and> k \<noteq> ''*'' \<and> k \<in> asn_country ` set all_asn_data
           \<and> (path, c) \<in> set (asn_files ''BY_COUNTRY/'' k es)"
proof -
  from for_each_written [OF assms [unfolded export_by_country_def]]
  obtain k es where g: "(k, es) \<in> set (group_by asn_country all_asn_data)"
    and m: "(path, c) \<in> set (fst (if k \<noteq> [] \<and> k \<noteq> ''*'' then
           (case sorted_by_asn es of
              Inl e \<Rightarrow> ([], Some e)
            | Inr sorted_entries \<Rightarrow>
                write_files open_error (asn_files ''BY_COUNTRY/'' k sorted_entries))
         else ([], None)))"
    by auto
  from m have k: "k \<noteq> []" "k \<noteq> ''*''"
    by (auto split: if_splits)
  with m obtain r where "(path, c) \<in> set (fst (write_files open_error (asn_files ''BY_COUNTRY/'' k r)))"
    by (cases "sorted_by_asn es") auto
  then have "(path, c) \<in> set (asn_files ''BY_COUNTRY/'' k r)"
    by (rule write_files_written)
  moreover from g group_by_keys [of asn_country all_asn_data] have "k \<in> asn_country ` set all_asn_data"
    by force
  ultimately show ?thesis
    using k by blast
qed

lemma concat_map_member:
  "x \<in> set d \<Longrightarrow> y \<in> set (f x) \<Longrightarrow> y \<in> set (concat (map f d))"
  by auto

lemma export_country_data_no_exclusion:
  assumes "list_all has_family sorted_data" and "pkg \<in> set sorted_data"
  shows "\<exists>files. export_country_data open_error sorted_data = write_files open_error files
     \<and> (''CSV/'' @ upper (version pkg) @ ''/'' @ country pkg @ ''.csv'',
          Rows (filter (\<lambda>p. country p = country pkg \<and> version p = version pkg) sorted_data))
         \<in> set files"
proof -
  let ?f = "\<lambda>(c, versions).
                 country_files c ''ipv4'' (fst versions) @ country_files c ''ipv6'' (snd versions)"
  let ?x = "(''CSV/'' @ upper (version pkg) @ ''/'' @ country pkg @ ''.csv'',
          Rows (filter (\<lambda>p. country p = country pkg \<and> version p = version pkg) sorted_data))"
  from assms(1) have "list_all (\<lambda>p. version p = ''ipv4'' \<or> version p = ''ipv6'') sorted_data"
    by (simp add: list_all_iff has_family_def)
  from group_packages_total [OF this, of "[]"]
  obtain d where d: "group_packages sorted_data [] = Inr d" ..
  then have e: "export_country_data open_error sorted_data = write_files open_error (concat (map ?f d))"
    by (simp add: export_country_data_def)
  from group_packages_keys [OF d] assms(2) have "country pkg \<in> fst ` set d"
    by simp
  then obtain v where v: "(country pkg, v) \<in> set d"
    by force
  from assms have "version pkg = ''ipv4'' \<or> version pkg = ''ipv6''"
    by (simp add: list_all_iff has_family_def)
  then have "?x \<in> set (?f (country pkg, v))"
  proof
    assume 4: "version pkg = ''ipv4''"
    from assms(2) 4 have "pkg \<in> set (filter (\<lambda>p. country p = country pkg \<and> version p = ''ipv4'') sorted_data)"
      by simp
    then have "filter (\<lambda>p. country p = country pkg \<and> version p = ''ipv4'') sorted_data \<noteq> []"
      by (metis empty_iff empty_set)
    with group_packages_entry(1) [OF d v] 4 show ?thesis
      by (simp add: country_files_def)
  next
    assume 6: "version pkg = ''ipv6''"
    from assms(2) 6 have "pkg \<in> set (filter (\<lambda>p. country p = country pkg \<and> version p = ''ipv6'') sorted_data)"
      by simp
    then have "filter (\<lambda>p. country p = country pkg \<and> version p = ''ipv6'') sorted_data \<noteq> []"
      by (metis empty_iff empty_set)
    with group_packages_entry(2) [OF d v] 6 show ?thesis
      by (simp add: country_files_def)
  qed
  with v have "?x \<in> set (concat (map ?f d))"
    by (rule concat_map_member)
  with e show ?thesis by blast
qed

text \<open>
  A country that holds \<open>/\<close> names a file in a directory the run did not make: with only
  the made directories the run of \<open>build.py\<close> ends there with \<open>FileNotFoundError\<close>,
  after the countries lists, the global files and the files of the countries before it.
\<close>

lemma unopenable_country_ends_run:
  "\<exists>arts. build_main log2_rounds_up dotted_quad (\<lambda>a. None) (opens_in build_directories)
       (\<lambda>path. if path = ''IANASources/delegated-ripencc-latest.txt''
               then Some (''ripencc|A/B|ipv4|80.0.0.0|65536|20000101|allocated'' @ [LF]
                          @ ''ripencc|DE|ipv4|81.0.0.0|65536|20000101|allocated'')
               else None)
     = (arts, Some FileNotFoundError)
   \<and> length arts = 12"
  by (simp add: ip_defs open_defs dotted_quad_def octet_def text_defs Let_def)

subsection \<open>The countries list\<close>

text \<open>
  C10. The three countries files hold one list: the country codes of the records, each
  once, in increasing order, with none left out; so the code of every record is in the
  list, also the wildcard and the empty code. The export opens the three files in turn,
  and writes all three when they open.
\<close>

theorem countries_list_complete:
  "\<exists>countries.
     export_countries_list open_error sorted_data
       = write_files open_error
           [(''CSV/countries.csv'', Lines countries),
            (''JSON/countries.json'', Lines countries),
            (''TXT/countries.txt'', Lines countries)]
     \<and> (list_all (\<lambda>path. open_error path = None)
           [''CSV/countries.csv'', ''JSON/countries.json'', ''TXT/countries.txt'']
         \<longrightarrow> export_countries_list open_error sorted_data
               = ([(''CSV/countries.csv'', Lines countries),
                   (''JSON/countries.json'', Lines countries),
                   (''TXT/countries.txt'', Lines countries)], None))
     \<and> sorted countries \<and> distinct countries
     \<and> set countries = country ` set sorted_data
     \<and> (pkg \<in> set sorted_data \<longrightarrow> country pkg \<in> set countries)"
proof (rule exI [of _ "sort (remdups (map country sorted_data))"], intro conjI impI)
  let ?countries = "sort (remdups (map country sorted_data))"
  let ?files = "[(''CSV/countries.csv'', Lines ?countries),
                 (''JSON/countries.json'', Lines ?countries),
                 (''TXT/countries.txt'', Lines ?countries)]"
  show e: "export_countries_list open_error sorted_data = write_files open_error ?files"
    by (simp only: export_countries_list_def Let_def)
  show "export_countries_list open_error sorted_data = (?files, None)"
    if "list_all (\<lambda>path. open_error path = None)
          [''CSV/countries.csv'', ''JSON/countries.json'', ''TXT/countries.txt'']"
    using that unfolding e by simp
  show "sorted ?countries" by simp
  show "distinct ?countries" by simp
  show "set ?countries = country ` set sorted_data" by simp
  show "country pkg \<in> set ?countries" if "pkg \<in> set sorted_data"
    using that by simp
qed

theorem countries_list_complete_witness:
  "list_all (\<lambda>path. opens_in build_directories path = None)
     [''CSV/countries.csv'', ''JSON/countries.json'', ''TXT/countries.txt'']
   \<and> export_countries_list (opens_in build_directories)
       [\<lparr>country = ''JP'', ip = ''103.0.0.0'', prefix_length = ''24'', version = ''ipv4''\<rparr>,
        \<lparr>country = ''*'', ip = ''80.0.0.0'', prefix_length = ''16'', version = ''ipv4''\<rparr>,
        \<lparr>country = '''', ip = ''2001:db8::'', prefix_length = ''32'', version = ''ipv6''\<rparr>,
        \<lparr>country = ''JP'', ip = ''103.0.1.0'', prefix_length = ''24'', version = ''ipv4''\<rparr>]
       = ([(''CSV/countries.csv'', Lines ['''', ''*'', ''JP'']),
           (''JSON/countries.json'', Lines ['''', ''*'', ''JP'']),
           (''TXT/countries.txt'', Lines ['''', ''*'', ''JP''])], None)
   \<and> country \<lparr>country = ''*'', ip = ''80.0.0.0'', prefix_length = ''16'', version = ''ipv4''\<rparr>
       \<in> set ['''', ''*'', ''JP'']"
proof -
  let ?star = "\<lparr>country = ''*'', ip = ''80.0.0.0'', prefix_length = ''16'', version = ''ipv4''\<rparr>"
  let ?data = "[\<lparr>country = ''JP'', ip = ''103.0.0.0'', prefix_length = ''24'', version = ''ipv4''\<rparr>,
        ?star,
        \<lparr>country = '''', ip = ''2001:db8::'', prefix_length = ''32'', version = ''ipv6''\<rparr>,
        \<lparr>country = ''JP'', ip = ''103.0.1.0'', prefix_length = ''24'', version = ''ipv4''\<rparr>]"
  have o: "list_all (\<lambda>path. opens_in build_directories path = None)
     [''CSV/countries.csv'', ''JSON/countries.json'', ''TXT/countries.txt'']"
    by (simp add: open_defs)
  from countries_list_complete [of "opens_in build_directories" ?data ?star] o
  obtain cs where e: "export_countries_list (opens_in build_directories) ?data
       = ([(''CSV/countries.csv'', Lines cs), (''JSON/countries.json'', Lines cs),
           (''TXT/countries.txt'', Lines cs)], None)"
    and m: "country ?star \<in> set cs"
    by auto
  have "export_countries_list (opens_in build_directories) ?data
       = ([(''CSV/countries.csv'', Lines ['''', ''*'', ''JP'']),
           (''JSON/countries.json'', Lines ['''', ''*'', ''JP'']),
           (''TXT/countries.txt'', Lines ['''', ''*'', ''JP''])], None)"
    by (simp add: export_countries_list_def Let_def open_defs)
  with e have "cs = ['''', ''*'', ''JP'']" by simp
  with e m o show ?thesis by simp
qed

subsection \<open>Views by registry\<close>

lemma those_map_all:
  "list_all (\<lambda>x. f x \<noteq> None) xs \<Longrightarrow> those (map f xs) = Some (map (\<lambda>x. the (f x)) xs)"
  by (induction xs) auto

lemma sorted_by_asn_total:
  "list_all (\<lambda>x. py_int (asn x) \<noteq> None) entries
   \<Longrightarrow> sorted_by_asn entries = Inr (sort_key (\<lambda>x. the (py_int (asn x))) entries)"
  by (simp add: sorted_by_asn_def those_map_all sort_key_decorated)

lemma sorted_by_asn_filter:
  assumes "sorted_by_asn entries = Inr global"
  shows "sorted_by_asn (filter P entries) = Inr (filter P global)"
proof -
  from sorted_by_asn_Inr [OF assms]
  have g: "global = sort_key (\<lambda>x. the (py_int (asn x))) entries"
    and ok: "list_all (\<lambda>x. py_int (asn x) \<noteq> None) entries"
    by simp_all
  from ok have "list_all (\<lambda>x. py_int (asn x) \<noteq> None) (filter P entries)"
    by (simp add: list_all_iff)
  from sorted_by_asn_total [OF this] show ?thesis
    by (simp add: g filter_sort)
qed

lemma mset_filter_disjoint:
  "(\<And>x. \<not> (P x \<and> Q x))
   \<Longrightarrow> mset (filter P xs) + mset (filter Q xs) = mset (filter (\<lambda>x. P x \<or> Q x) xs)"
  by (induction xs) auto

lemma mset_concat_filters:
  "distinct ks
   \<Longrightarrow> mset (concat (map (\<lambda>k. filter (\<lambda>x. f x = k) xs) ks)) = mset (filter (\<lambda>x. f x \<in> set ks) xs)"
proof (induction ks)
  case Nil
  show ?case by simp
next
  case (Cons k ks)
  then have "\<And>x. \<not> (f x = k \<and> f x \<in> set ks)" by auto
  from mset_filter_disjoint [of "\<lambda>x. f x = k" "\<lambda>x. f x \<in> set ks" xs, OF this] Cons
  show ?case by simp
qed

lemma mset_concat_views:
  assumes "distinct ks" and "f ` set xs \<subseteq> set ks"
  shows "mset (concat (map (\<lambda>k. filter (\<lambda>x. f x = k) xs) ks)) = mset xs"
proof -
  from assms(2) have "filter (\<lambda>x. f x \<in> set ks) xs = xs"
    by (auto simp: filter_id_conv)
  with mset_concat_filters [OF assms(1), of f xs] show ?thesis by simp
qed

text \<open>
  C8, as amended. An ASN entry carries the registry field of its line. When the entries
  sort, \<open>export_by_registry\<close> forms one view for each registry that occurs, no registry
  twice and none left out; each view is the global view restricted to that registry, and
  together the views hold exactly the entries of the global view. The export opens the
  three files of each view in turn, under paths that hold the registry as it is, and
  writes them as far as the paths open.
\<close>

theorem registry_views_cover_global:
  assumes "sorted_by_asn all_asn_data = Inr global"
  shows "(process_asn_line line = Some e \<longrightarrow> registry e = parts_of line ! 0)
     \<and> (\<exists>views.
           export_by_registry open_error all_asn_data
             = write_files open_error
                 (concat (map (\<lambda>(r, es). asn_files ''BY_REGISTRY/'' r es) views))
           \<and> distinct (map fst views)
           \<and> set (map fst views) = registry ` set all_asn_data
           \<and> list_all (\<lambda>(r, es). es = filter (\<lambda>x. registry x = r) global) views
           \<and> mset (concat (map snd views)) = mset global)"
proof -
  let ?groups = "group_by registry all_asn_data"
  let ?view = "\<lambda>r. filter (\<lambda>x. registry x = r) global"
  let ?views = "map (\<lambda>r. (r, ?view r)) (map fst ?groups)"
  let ?body = "\<lambda>(r, entries). case sorted_by_asn entries of
                  Inl e \<Rightarrow> ([], Some e)
                | Inr sorted_entries \<Rightarrow>
                    write_files open_error (asn_files ''BY_REGISTRY/'' r sorted_entries)"
  have body: "?body x = write_files open_error (asn_files ''BY_REGISTRY/'' (fst x) (?view (fst x)))"
    if "x \<in> set ?groups" for x
  proof -
    obtain r es where x: "x = (r, es)" by (cases x)
    with that group_by_entry have "es = filter (\<lambda>x. registry x = r) all_asn_data"
      by fastforce
    with sorted_by_asn_filter [OF assms, of "\<lambda>x. registry x = r"] x show ?thesis
      by simp
  qed
  have "export_by_registry open_error all_asn_data
          = write_files open_error
              (concat (map (\<lambda>x. asn_files ''BY_REGISTRY/'' (fst x) (?view (fst x))) ?groups))"
    unfolding export_by_registry_def by (rule for_each_write_files) (rule body)
  then have 1: "export_by_registry open_error all_asn_data
          = write_files open_error
              (concat (map (\<lambda>(r, es). asn_files ''BY_REGISTRY/'' r es) ?views))"
    by (simp add: comp_def)
  have 2: "distinct (map fst ?views)"
    using group_by_distinct [of registry all_asn_data] by (simp add: comp_def)
  have 3: "set (map fst ?views) = registry ` set all_asn_data"
    using group_by_keys [of registry all_asn_data] by (simp add: comp_def)
  have 4: "list_all (\<lambda>(r, es). es = filter (\<lambda>x. registry x = r) global) ?views"
    by (simp add: list_all_iff)
  have "set global = set all_asn_data"
    using sorted_by_asn_mset [OF assms] by (metis set_mset_mset)
  with group_by_keys [of registry all_asn_data]
  have "registry ` set global \<subseteq> set (map fst ?groups)"
    by simp
  from mset_concat_views [OF group_by_distinct this]
  have 5: "mset (concat (map snd ?views)) = mset global"
    by (simp add: comp_def)
  have 6: "process_asn_line line = Some e \<longrightarrow> registry e = parts_of line ! 0"
    using process_asn_line_Some(6) [of line e] by auto
  from 1 2 3 4 5 6 show ?thesis by blast
qed

text \<open>
  C8 as stated fails for IP blocks: the record of a line does not hold the line's
  registry, so the lines of two registries give the same record.
\<close>

theorem registry_not_in_ip_record:
  "process_line (\<lambda>n. False) ''apnic|JP|ipv4|103.0.0.0|256|20120101|allocated''
     = Inr (Some \<lparr>country = ''JP'', ip = ''103.0.0.0'', prefix_length = ''24'', version = ''ipv4''\<rparr>)
   \<and> process_line (\<lambda>n. False) ''arin|JP|ipv4|103.0.0.0|256|20120101|allocated''
     = Inr (Some \<lparr>country = ''JP'', ip = ''103.0.0.0'', prefix_length = ''24'', version = ''ipv4''\<rparr>)
   \<and> parts_of ''apnic|JP|ipv4|103.0.0.0|256|20120101|allocated'' ! 0 = ''apnic''
   \<and> parts_of ''arin|JP|ipv4|103.0.0.0|256|20120101|allocated'' ! 0 = ''arin''"
  by (simp add: ip_defs text_defs)

theorem registry_views_cover_global_witness:
  "sorted_by_asn
     [\<lparr>registry = ''apnic'', asn_country = ''JP'', asn = ''173'', asn_value = ''1'',
        date = ''20020801'', status = ''allocated''\<rparr>,
      \<lparr>registry = ''arin'', asn_country = ''US'', asn = ''10'', asn_value = ''1'',
        date = ''19910101'', status = ''assigned''\<rparr>,
      \<lparr>registry = ''apnic'', asn_country = ''AU'', asn = ''38'', asn_value = ''1'',
        date = ''19930101'', status = ''assigned''\<rparr>]
   = Inr [\<lparr>registry = ''arin'', asn_country = ''US'', asn = ''10'', asn_value = ''1'',
            date = ''19910101'', status = ''assigned''\<rparr>,
          \<lparr>registry = ''apnic'', asn_country = ''AU'', asn = ''38'', asn_value = ''1'',
            date = ''19930101'', status = ''assigned''\<rparr>,
          \<lparr>registry = ''apnic'', asn_country = ''JP'', asn = ''173'', asn_value = ''1'',
            date = ''20020801'', status = ''allocated''\<rparr>]
   \<and> process_asn_line ''apnic|JP|asn|173|1|20020801|allocated''
       = Some \<lparr>registry = ''apnic'', asn_country = ''JP'', asn = ''173'', asn_value = ''1'',
                date = ''20020801'', status = ''allocated''\<rparr>
   \<and> parts_of ''apnic|JP|asn|173|1|20020801|allocated'' ! 0 = ''apnic''
   \<and> (\<exists>views.
         export_by_registry (opens_in asn_directories)
           [\<lparr>registry = ''apnic'', asn_country = ''JP'', asn = ''173'', asn_value = ''1'',
              date = ''20020801'', status = ''allocated''\<rparr>,
            \<lparr>registry = ''arin'', asn_country = ''US'', asn = ''10'', asn_value = ''1'',
              date = ''19910101'', status = ''assigned''\<rparr>,
            \<lparr>registry = ''apnic'', asn_country = ''AU'', asn = ''38'', asn_value = ''1'',
              date = ''19930101'', status = ''assigned''\<rparr>]
           = write_files (opens_in asn_directories)
               (concat (map (\<lambda>(r, es). asn_files ''BY_REGISTRY/'' r es) views))
         \<and> set (map fst views) = {''apnic'', ''arin''}
         \<and> mset (concat (map snd views))
             = mset [\<lparr>registry = ''arin'', asn_country = ''US'', asn = ''10'', asn_value = ''1'',
                       date = ''19910101'', status = ''assigned''\<rparr>,
                     \<lparr>registry = ''apnic'', asn_country = ''AU'', asn = ''38'', asn_value = ''1'',
                       date = ''19930101'', status = ''assigned''\<rparr>,
                     \<lparr>registry = ''apnic'', asn_country = ''JP'', asn = ''173'', asn_value = ''1'',
                       date = ''20020801'', status = ''allocated''\<rparr>])"
proof -
  let ?jp = "\<lparr>registry = ''apnic'', asn_country = ''JP'', asn = ''173'', asn_value = ''1'',
        date = ''20020801'', status = ''allocated''\<rparr>"
  let ?us = "\<lparr>registry = ''arin'', asn_country = ''US'', asn = ''10'', asn_value = ''1'',
        date = ''19910101'', status = ''assigned''\<rparr>"
  let ?au = "\<lparr>registry = ''apnic'', asn_country = ''AU'', asn = ''38'', asn_value = ''1'',
        date = ''19930101'', status = ''assigned''\<rparr>"
  let ?line = "''apnic|JP|asn|173|1|20020801|allocated''"
  have g: "sorted_by_asn [?jp, ?us, ?au] = Inr [?us, ?au, ?jp]"
    by (simp add: sorted_by_asn_def text_defs)
  have l: "process_asn_line ?line = Some ?jp"
    by (simp add: process_asn_line_def text_defs)
  have p: "parts_of ?line ! 0 = ''apnic''"
    by (simp add: text_defs)
  from registry_views_cover_global [OF g, of ?line ?jp "opens_in asn_directories"] l
  obtain views where
    "export_by_registry (opens_in asn_directories) [?jp, ?us, ?au]
       = write_files (opens_in asn_directories)
           (concat (map (\<lambda>(r, es). asn_files ''BY_REGISTRY/'' r es) views))"
    "set (map fst views) = registry ` set [?jp, ?us, ?au]"
    "mset (concat (map snd views)) = mset [?us, ?au, ?jp]"
    by blast
  moreover have "registry ` set [?jp, ?us, ?au] = {''apnic'', ''arin''}"
    by auto
  ultimately show ?thesis
    using g l p by auto
qed

text \<open>
  A registry that holds \<open>/\<close> names a file in a directory the run did not make: with only
  the made directories the export ends there with \<open>FileNotFoundError\<close>, after the files
  of the registries before it.
\<close>

lemma unopenable_registry_ends_export:
  "\<exists>written. export_by_registry (opens_in asn_directories)
     [\<lparr>registry = ''apnic'', asn_country = ''JP'', asn = ''173'', asn_value = ''1'',
        date = ''20020801'', status = ''allocated''\<rparr>,
      \<lparr>registry = ''a/b'', asn_country = ''US'', asn = ''10'', asn_value = ''1'',
        date = ''19910101'', status = ''assigned''\<rparr>]
     = (written, Some FileNotFoundError)
   \<and> map fst written
       = [''ASN/CSV/BY_REGISTRY/apnic.csv'', ''ASN/JSON/BY_REGISTRY/apnic.json'',
          ''ASN/TXT/BY_REGISTRY/apnic.txt'']"
  by (simp add: asn_defs open_defs text_defs)

end
